theory Spec2Isabelle
  imports Main "HOL-Library.Word"
begin

unbundle bit_operations_syntax

section \<open>Bytes, strings and errors\<close>

text \<open>
  A Go \<^verbatim>\<open>string\<close> and a \<^verbatim>\<open>[]byte\<close> are both sequences of bytes. They are modelled as
  \<^typ>\<open>string\<close>, a list of 8-bit characters; \<^term>\<open>of_char c :: nat\<close> is the value of a byte.
\<close>

definition nullDelimiter :: char where
  "nullDelimiter = CHR 0x00"

definition newlineDelimiter :: char where
  "newlineDelimiter = CHR 0x0A"

text \<open>
  The error values that can reach the proxy. \<open>Wrapf msg e\<close> is the value of
  \<^verbatim>\<open>fmt.Errorf(msg + ": %w", e)\<close>; \<open>OpError\<close> and \<open>SyscallError\<close> are the wrappers
  of package net and os; \<open>Errno\<close> is \<^verbatim>\<open>syscall.Errno\<close>; \<open>ErrNetClosing\<close> is the
  error of an operation on a closed network connection; \<open>DeadlineExceeded\<close> is the
  error of an expired I/O deadline; \<open>ErrorString\<close> is any \<^verbatim>\<open>errors.New\<close> value other
  than the sentinels listed.
\<close>

datatype error =
    EOF
  | ErrUnexpectedEOF
  | ErrShortWrite
  | ErrNetClosing
  | DeadlineExceeded
  | Errno nat
  | SyscallError string error
  | OpError string error
  | Wrapf string error
  | ErrorString string

definition EAGAIN :: nat where "EAGAIN = 11"
definition EPIPE :: nat where "EPIPE = 32"
definition ECONNRESET :: nat where "ECONNRESET = 104"
definition ETIMEDOUT :: nat where "ETIMEDOUT = 110"

section \<open>The buffered reader on the client connection\<close>

text \<open>
  A \<^verbatim>\<open>bufio.Reader\<close> over the client connection: the bytes the client still sends,
  and the error every read returns once they are used up (\<open>EOF\<close> after a clean
  disconnect, another error after a failure of the connection).
\<close>

record reader =
  pending :: string
  eof_err :: error

text \<open>\<^verbatim>\<open>reader.ReadByte()\<close>: the next byte, or the error with a zero byte.\<close>

definition ReadByte :: "reader \<Rightarrow> (char \<times> error option) \<times> reader" where
  "ReadByte r =
     (case pending r of
        [] \<Rightarrow> ((CHR 0x00, Some (eof_err r)), r)
      | b # bs \<Rightarrow> ((b, None), r\<lparr>pending := bs\<rparr>))"

text \<open>
  \<^verbatim>\<open>io.ReadFull(reader, buf[:n])\<close>: exactly \<open>n\<close> bytes, or what was there and an error,
  which is \<open>ErrUnexpectedEOF\<close> when the stream ended cleanly after some but not all bytes.
\<close>

definition ReadFull :: "reader \<Rightarrow> nat \<Rightarrow> (string \<times> error option) \<times> reader" where
  "ReadFull r n =
     (if n \<le> length (pending r)
      then ((take n (pending r), None), r\<lparr>pending := drop n (pending r)\<rparr>)
      else ((pending r,
             Some (if pending r \<noteq> [] \<and> eof_err r = EOF then ErrUnexpectedEOF else eof_err r)),
            r\<lparr>pending := []\<rparr>))"

section \<open>The delimited command reader\<close>

text \<open>
  \<^verbatim>\<open>readCommand\<close>: the loop appends bytes to \<open>cmdBytes\<close> until a delimiter is read.
  The buffer borrowed from \<^verbatim>\<open>cmdBufPool\<close> is copied into the returned string before it is
  given back, so the pool has no effect on the result and is left out. The result is
  Go's triple \<open>(cmd, delim, err)\<close>, with the reader as it is afterwards.
\<close>

function readCommand_loop :: "string \<Rightarrow> reader \<Rightarrow> (string \<times> char \<times> error option) \<times> reader" where
  "readCommand_loop cmdBytes r =
     (case ReadByte r of
        ((b, Some e), r') \<Rightarrow> (('''', CHR 0x00, Some e), r')
      | ((b, None), r') \<Rightarrow>
          if b = nullDelimiter \<or> b = newlineDelimiter
          then ((cmdBytes, b, None), r')
          else readCommand_loop (cmdBytes @ [b]) r')"
  by pat_completeness auto
termination
  by (relation "measure (\<lambda>(cmdBytes, r). length (pending r))")
     (auto simp: ReadByte_def split: list.splits)

declare readCommand_loop.simps [simp del]

definition readCommand :: "reader \<Rightarrow> (string \<times> char \<times> error option) \<times> reader" where
  "readCommand r = readCommand_loop [] r"

section \<open>The command classifier\<close>

text \<open>\<^verbatim>\<open>strings.HasPrefix\<close> and \<^verbatim>\<open>strings.HasSuffix\<close>.\<close>

definition HasPrefix :: "string \<Rightarrow> string \<Rightarrow> bool" where
  "HasPrefix s p \<longleftrightarrow> length p \<le> length s \<and> take (length p) s = p"

definition HasSuffix :: "string \<Rightarrow> string \<Rightarrow> bool" where
  "HasSuffix s x \<longleftrightarrow> length x \<le> length s \<and> drop (length s - length x) s = x"

definition isInstreamCommand :: "string \<Rightarrow> bool" where
  "isInstreamCommand cmd \<longleftrightarrow>
     (HasPrefix cmd ''z'' \<and> HasSuffix cmd ''INSTREAM'') \<or>
     (HasPrefix cmd ''n'' \<and> HasSuffix cmd ''INSTREAM'')"

subsection \<open>Splitting a command into fields\<close>

text \<open>
  \<^verbatim>\<open>strings.Fields\<close> splits around runs of white space as \<^verbatim>\<open>unicode.IsSpace\<close> defines
  it, on the runes of the UTF-8 decoding of the string. \<open>DecodeRune\<close> is
  \<^verbatim>\<open>utf8.DecodeRuneInString\<close>: the code point at the head of the string and the number of
  bytes it takes; a byte that starts no valid encoding decodes to \<open>RuneError\<close> with
  width 1.
\<close>

definition RuneError :: nat where
  "RuneError = 0xFFFD"

fun DecodeRune :: "string \<Rightarrow> nat \<times> nat" where
  "DecodeRune [] = (RuneError, 0)"
| "DecodeRune (c # cs) =
     (let s0 = (of_char c :: nat) in
      if s0 < 0x80 then (s0, 1)
      else if s0 < 0xC2 \<or> 0xF5 \<le> s0 then (RuneError, 1)
      else
        let sz = (if s0 < 0xE0 then 2 else if s0 < 0xF0 then 3 else (4::nat));
            lo = (if s0 = 0xE0 then 0xA0 else if s0 = 0xF0 then 0x90 else (0x80::nat));
            hi = (if s0 = 0xED then 0x9F else if s0 = 0xF4 then 0x8F else (0xBF::nat))
        in
        if length (c # cs) < sz then (RuneError, 1)
        else
          let s1 = (of_char (cs ! 0) :: nat) in
          if s1 < lo \<or> hi < s1 then (RuneError, 1)
          else if sz \<le> 2 then ((s0 mod 32) * 64 + s1 mod 64, 2)
          else
            let s2 = (of_char (cs ! 1) :: nat) in
            if s2 < 0x80 \<or> 0xBF < s2 then (RuneError, 1)
            else if sz \<le> 3 then ((s0 mod 16) * 4096 + (s1 mod 64) * 64 + s2 mod 64, 3)
            else
              let s3 = (of_char (cs ! 2) :: nat) in
              if s3 < 0x80 \<or> 0xBF < s3 then (RuneError, 1)
              else ((s0 mod 8) * 262144 + (s1 mod 64) * 4096 + (s2 mod 64) * 64 + s3 mod 64, 4))"

text \<open>
  \<^verbatim>\<open>unicode.IsSpace\<close>: in Latin-1 the six ASCII space characters, U+0085 and U+00A0;
  beyond it the code points of the White_Space property.
\<close>

definition IsSpace :: "nat \<Rightarrow> bool" where
  "IsSpace r \<longleftrightarrow>
     (if r \<le> 0xFF
      then r = 0x09 \<or> r = 0x0A \<or> r = 0x0B \<or> r = 0x0C \<or> r = 0x0D \<or> r = 0x20 \<or>
           r = 0x85 \<or> r = 0xA0
      else r = 0x1680 \<or> (0x2000 \<le> r \<and> r \<le> 0x200A) \<or> r = 0x2028 \<or> r = 0x2029 \<or>
           r = 0x202F \<or> r = 0x205F \<or> r = 0x3000)"

text \<open>
  \<^verbatim>\<open>strings.FieldsFunc\<close>: one pass over the runes. \<open>start\<close> is the field being
  read (\<open>None\<close> between fields, where the library has \<open>start < 0\<close>); a rune that satisfies
  \<open>f\<close> closes it, and the end of the string closes the last one.
\<close>

function FieldsFunc_loop :: "(nat \<Rightarrow> bool) \<Rightarrow> string option \<Rightarrow> string \<Rightarrow> string list" where
  "FieldsFunc_loop f start [] = (case start of None \<Rightarrow> [] | Some t \<Rightarrow> [t])"
| "FieldsFunc_loop f start (c # cs) =
     (if f (fst (DecodeRune (c # cs)))
      then (case start of
              None \<Rightarrow> FieldsFunc_loop f None (drop (snd (DecodeRune (c # cs))) (c # cs))
            | Some t \<Rightarrow> t # FieldsFunc_loop f None (drop (snd (DecodeRune (c # cs))) (c # cs)))
      else FieldsFunc_loop f
             (Some ((case start of None \<Rightarrow> [] | Some t \<Rightarrow> t) @
                    take (snd (DecodeRune (c # cs))) (c # cs)))
             (drop (snd (DecodeRune (c # cs))) (c # cs)))"
  by pat_completeness auto

lemma DecodeRune_width: "1 \<le> snd (DecodeRune (c # cs))"
  by (simp add: Let_def)

declare DecodeRune.simps [simp del]

termination FieldsFunc_loop
proof (relation "measure (\<lambda>(f, start, s). length s)")
  show "wf (measure (\<lambda>(f, start, s). length s))" by simp
next
  fix f :: "nat \<Rightarrow> bool" and start :: "string option" and c cs
  have "1 \<le> snd (DecodeRune (c # cs))" by (rule DecodeRune_width)
  then show "((f, None, drop (snd (DecodeRune (c # cs))) (c # cs)), f, start, c # cs)
               \<in> measure (\<lambda>(f, start, s). length s)"
    by simp
next
  fix f :: "nat \<Rightarrow> bool" and start :: "string option" and c cs x2
  have "1 \<le> snd (DecodeRune (c # cs))" by (rule DecodeRune_width)
  then show "((f, None, drop (snd (DecodeRune (c # cs))) (c # cs)), f, start, c # cs)
               \<in> measure (\<lambda>(f, start, s). length s)"
    by simp
next
  fix f :: "nat \<Rightarrow> bool" and start :: "string option" and c cs
  have "1 \<le> snd (DecodeRune (c # cs))" by (rule DecodeRune_width)
  then show "((f, Some ((case start of None \<Rightarrow> [] | Some t \<Rightarrow> t) @
                        take (snd (DecodeRune (c # cs))) (c # cs)),
               drop (snd (DecodeRune (c # cs))) (c # cs)), f, start, c # cs)
               \<in> measure (\<lambda>(f, start, s). length s)"
    by simp
qed

text \<open>
  \<^verbatim>\<open>strings.Fields\<close> is \<^verbatim>\<open>FieldsFunc(s, unicode.IsSpace)\<close>. On a string of ASCII bytes the
  library runs a loop over the bytes instead, with the six ASCII space characters: there
  a rune is a byte, and the fields are the same.
\<close>

definition Fields :: "string \<Rightarrow> string list" where
  "Fields s = FieldsFunc_loop IsSpace None s"

subsection \<open>The allow-list\<close>

definition allowedCommands :: "string \<rightharpoonup> bool" where
  "allowedCommands =
     [''PING'' \<mapsto> True, ''INSTREAM'' \<mapsto> True, ''VERSION'' \<mapsto> True, ''VERSIONCOMMANDS'' \<mapsto> True]"

text \<open>Reading a Go map at a key it does not hold gives the zero value \<open>false\<close>.\<close>

definition lookup :: "(string \<rightharpoonup> bool) \<Rightarrow> string \<Rightarrow> bool" where
  "lookup m k = (case m k of None \<Rightarrow> False | Some b \<Rightarrow> b)"

definition isCommandAllowed :: "string \<Rightarrow> bool" where
  "isCommandAllowed cmd =
     (let cmdParts = Fields cmd in
      if length cmdParts = 0 then False
      else
        let actualCmd = cmdParts ! 0;
            actualCmd' = (if HasPrefix actualCmd ''z'' \<or> HasPrefix actualCmd ''n''
                          then drop 1 actualCmd else actualCmd)
        in lookup allowedCommands actualCmd')"

section \<open>The connection error classifier\<close>

text \<open>
  What package errors sees of an error value. \<open>Unwrap\<close> is the error one level down
  the chain. \<open>Timeout\<close> is the result of the value's \<^verbatim>\<open>Timeout()\<close> method where its
  type has one: an errno is a timeout when it is EAGAIN (EWOULDBLOCK has the same value)
  or ETIMEDOUT; a \<^verbatim>\<open>*os.SyscallError\<close> asks the error it holds, a \<^verbatim>\<open>*net.OpError\<close>
  asks the error it holds, looking through one \<^verbatim>\<open>*os.SyscallError\<close>. \<open>isNetError\<close>
  holds of the types that implement the interface \<^verbatim>\<open>net.Error\<close> (the methods
  \<^verbatim>\<open>Timeout\<close> and \<^verbatim>\<open>Temporary\<close>), \<open>isOpError\<close> of \<^verbatim>\<open>*net.OpError\<close>.
\<close>

fun Unwrap :: "error \<Rightarrow> error option" where
  "Unwrap (SyscallError s e) = Some e"
| "Unwrap (OpError s e) = Some e"
| "Unwrap (Wrapf m e) = Some e"
| "Unwrap e = None"

fun Timeout :: "error \<Rightarrow> bool option" where
  "Timeout (Errno n) = Some (n = EAGAIN \<or> n = ETIMEDOUT)"
| "Timeout DeadlineExceeded = Some True"
| "Timeout ErrNetClosing = Some False"
| "Timeout (SyscallError s e) = Some (Timeout e = Some True)"
| "Timeout (OpError s e) =
     Some (case e of SyscallError s' e' \<Rightarrow> Timeout e' = Some True | _ \<Rightarrow> Timeout e = Some True)"
| "Timeout e = None"

fun isNetError :: "error \<Rightarrow> bool" where
  "isNetError (Errno n) = True"
| "isNetError DeadlineExceeded = True"
| "isNetError ErrNetClosing = True"
| "isNetError (OpError s e) = True"
| "isNetError e = False"

fun isOpError :: "error \<Rightarrow> bool" where
  "isOpError (OpError s e) = True"
| "isOpError e = False"

text \<open>
  \<^verbatim>\<open>errors.As\<close> returns the first error of the chain whose type is the target's;
  \<^verbatim>\<open>errors.Is\<close> tells whether an error of the chain equals the target.
\<close>

function errorsAs :: "(error \<Rightarrow> bool) \<Rightarrow> error \<Rightarrow> error option" where
  "errorsAs T e =
     (if T e then Some e
      else case Unwrap e of None \<Rightarrow> None | Some e' \<Rightarrow> errorsAs T e')"
  by pat_completeness auto

lemma Unwrap_size: "Unwrap e = Some e' \<Longrightarrow> size e' < size e"
  by (cases e) auto

termination errorsAs
  by (relation "measure (\<lambda>(T, e). size e)") (auto simp: Unwrap_size)

declare errorsAs.simps [simp del]

function errorsIs :: "error \<Rightarrow> error \<Rightarrow> bool" where
  "errorsIs e target =
     (if e = target then True
      else case Unwrap e of None \<Rightarrow> False | Some e' \<Rightarrow> errorsIs e' target)"
  by pat_completeness auto
termination errorsIs
  by (relation "measure (\<lambda>(e, target). size e)") (auto simp: Unwrap_size)

declare errorsIs.simps [simp del]

text \<open>\<^verbatim>\<open>isConnectionClosed\<close>; \<open>None\<close> is the nil error.\<close>

fun isConnectionClosed :: "error option \<Rightarrow> bool" where
  "isConnectionClosed None = False"
| "isConnectionClosed (Some err) =
     (if (case errorsAs isNetError err of
            None \<Rightarrow> False
          | Some netErr \<Rightarrow> Timeout netErr = Some True)
      then False
      else if errorsAs isOpError err \<noteq> None then True
      else errorsIs err EOF \<or> errorsIs err ErrUnexpectedEOF \<or>
           errorsIs err (Errno EPIPE) \<or> errorsIs err (Errno ECONNRESET))"

section \<open>Connections and buffered writers\<close>

text \<open>
  The writing side of a \<^verbatim>\<open>net.Conn\<close>: the bytes the peer has been sent, and how the
  connection fails. \<open>room\<close> is the number of bytes it still takes before a write fails
  with \<open>fault\<close> (\<open>None\<close>: it never fails); a write on a closed connection fails at once.
\<close>

record conn =
  sent :: string
  room :: "nat option"
  fault :: error
  closed :: bool

definition conn_Write :: "conn \<Rightarrow> string \<Rightarrow> nat \<times> error option \<times> conn" where
  "conn_Write c p =
     (if closed c then (0, Some (OpError ''write'' ErrNetClosing), c)
      else case room c of
        None \<Rightarrow> (length p, None, c\<lparr>sent := sent c @ p\<rparr>)
      | Some k \<Rightarrow>
          if length p \<le> k
          then (length p, None, c\<lparr>sent := sent c @ p, room := Some (k - length p)\<rparr>)
          else (k, Some (fault c), c\<lparr>sent := sent c @ take k p, room := Some 0\<rparr>))"

definition conn_Close :: "conn \<Rightarrow> error option \<times> conn" where
  "conn_Close c =
     (if closed c then (Some (OpError ''close'' ErrNetClosing), c)
      else (None, c\<lparr>closed := True\<rparr>))"

text \<open>
  A \<^verbatim>\<open>bufio.Writer\<close> of the size \<^verbatim>\<open>NewClamdProxy\<close> gives both writers: the connection
  it writes to, the bytes it holds, and its sticky error.
\<close>

definition bufSize :: nat where
  "bufSize = 64 * 1024"

record writer =
  wr :: conn
  buf :: string
  err :: "error option"

definition Available :: "writer \<Rightarrow> nat" where
  "Available b = bufSize - length (buf b)"

definition Flush :: "writer \<Rightarrow> error option \<times> writer" where
  "Flush b =
     (if err b \<noteq> None then (err b, b)
      else if buf b = [] then (None, b)
      else
        case conn_Write (wr b) (buf b) of (n, e, c) \<Rightarrow>
          (case (if n < length (buf b) \<and> e = None then Some ErrShortWrite else e) of
             Some x \<Rightarrow> (Some x, b\<lparr>wr := c, buf := drop n (buf b), err := Some x\<rparr>)
           | None \<Rightarrow> (None, b\<lparr>wr := c, buf := []\<rparr>)))"

text \<open>
  \<^verbatim>\<open>Writer.Write\<close>: while the bytes do not fit and no error is recorded, an empty buffer
  passes them to the connection directly and a filled buffer is topped up and flushed;
  what is left at the end goes into the buffer. Every caller drops the byte count, so
  the result is the error and the writer.
\<close>

lemma conn_Write_complete:
  "conn_Write c p = (n, None, c') \<Longrightarrow> n = length p"
  by (auto simp: conn_Write_def split: if_splits option.splits)

lemma Flush_emptied:
  "Flush b = (e, b') \<Longrightarrow> err b' = None \<Longrightarrow> err b = None \<and> buf b' = []"
  by (auto simp: Flush_def split: if_splits prod.splits option.splits)

function Write :: "writer \<Rightarrow> string \<Rightarrow> error option \<times> writer" where
  "Write b p =
     (if Available b < length p \<and> err b = None
      then
        (if buf b = []
         then (case conn_Write (wr b) p of (n, e, c) \<Rightarrow>
                 Write (b\<lparr>wr := c, err := e\<rparr>) (drop n p))
         else (case Flush (b\<lparr>buf := buf b @ take (Available b) p\<rparr>) of (e, b') \<Rightarrow>
                 Write b' (drop (Available b) p)))
      else if err b \<noteq> None then (err b, b)
      else (None, b\<lparr>buf := buf b @ p\<rparr>))"
  by pat_completeness auto
termination
  apply (relation "measure (\<lambda>(b, p). if err b = None
                                    then 1 + 2 * length p + (if buf b = [] then 0 else 1)
                                    else 0)")
    apply simp
  subgoal for b p n x2 e c
    apply (cases e)
     apply clarsimp
     apply (drule conn_Write_complete [OF sym])
     apply auto[1]
    apply simp
    done
  subgoal for b p e b'
    apply (cases "err b'")
     apply (drule Flush_emptied [OF sym])
      apply simp
     apply auto[1]
    apply simp
    done
  done

declare Write.simps [simp del]

text \<open>
  \<^verbatim>\<open>Writer.WriteString\<close>: the same loop, without the direct write (a network
  connection has no \<^verbatim>\<open>WriteString\<close> of its own).
\<close>

function WriteString :: "writer \<Rightarrow> string \<Rightarrow> error option \<times> writer" where
  "WriteString b s =
     (if Available b < length s \<and> err b = None
      then (case Flush (b\<lparr>buf := buf b @ take (Available b) s\<rparr>) of (e, b') \<Rightarrow>
              WriteString b' (drop (Available b) s))
      else if err b \<noteq> None then (err b, b)
      else (None, b\<lparr>buf := buf b @ s\<rparr>))"
  by pat_completeness auto
termination
  apply (relation "measure (\<lambda>(b, s). if err b = None
                                    then 1 + 2 * length s + (if buf b = [] then 0 else 1)
                                    else 0)")
   apply simp
  subgoal for b s e b'
    apply (cases "err b'")
     apply (drule Flush_emptied [OF sym])
      apply simp
     apply (auto simp: Available_def bufSize_def)[1]
    apply simp
    done
  done

declare WriteString.simps [simp del]

text \<open>
  \<^verbatim>\<open>io.CopyN(dst, src, n)\<close> by its contract: it moves up to \<open>n\<close> bytes from the reader
  into the writer, and returns an error when the writer fails or the reader ends before
  \<open>n\<close> bytes (the reader's own error, \<open>EOF\<close> after a clean end). The pieces in which the
  library moves the bytes change only how they are divided between the writer's buffer
  and the connection.
\<close>

definition CopyN :: "writer \<Rightarrow> reader \<Rightarrow> nat \<Rightarrow> error option \<times> writer \<times> reader" where
  "CopyN dst src n =
     (case Write dst (take n (pending src)) of (e, dst') \<Rightarrow>
        (case e of
           Some x \<Rightarrow> (Some x, dst', src\<lparr>pending := drop n (pending src)\<rparr>)
         | None \<Rightarrow>
             if length (pending src) < n
             then (Some (eof_err src), dst', src\<lparr>pending := []\<rparr>)
             else (None, dst', src\<lparr>pending := drop n (pending src)\<rparr>)))"

section \<open>The chunk relay\<close>

text \<open>
  The length of a chunk, from its four bytes in network byte order. Go's \<^verbatim>\<open>int\<close> is
  taken at 64 bits, its size on amd64 and arm64; \<open>chunkSize\<close> is the signed value of the
  word the shifts and ors compute. At this width it is never negative (lemma
  \<open>chunkSize_range\<close> below), so the slice \<^verbatim>\<open>chunk[:size]\<close> is always in range. A 32-bit
  build, where a first byte of 0x80 or more gives a negative \<^verbatim>\<open>int\<close>, is not modelled.
\<close>

definition chunkSize :: "string \<Rightarrow> int" where
  "chunkSize sizeBytes =
     sint ((push_bit 24 (of_char (sizeBytes ! 0)) OR push_bit 16 (of_char (sizeBytes ! 1)) OR
            push_bit 8 (of_char (sizeBytes ! 2)) OR of_char (sizeBytes ! 3)) :: 64 word)"

text \<open>
  The payload of one chunk: through a buffer of \<^verbatim>\<open>chunkBufPool\<close> when it fits in
  32 KiB (the buffer is given back on every path and nothing of it is read before it is
  written, so the pool is left out), with \<^verbatim>\<open>io.CopyN\<close> otherwise.
\<close>

definition relayChunk :: "writer \<Rightarrow> reader \<Rightarrow> int \<Rightarrow> error option \<times> writer \<times> reader" where
  "relayChunk b r size' =
     (if size' \<le> 32 * 1024
      then (case ReadFull r (nat size') of
              ((chunk, Some e), r') \<Rightarrow> (Some (Wrapf ''failed to read chunk data'' e), b, r')
            | ((chunk, None), r') \<Rightarrow>
                (case Write b chunk of
                   (Some e, b') \<Rightarrow> (Some (Wrapf ''failed to forward chunk data'' e), b', r')
                 | (None, b') \<Rightarrow> (None, b', r')))
      else (case CopyN b r (nat size') of
              (Some e, b', r') \<Rightarrow> (Some (Wrapf ''failed to copy chunk data'' e), b', r')
            | (None, b', r') \<Rightarrow> (None, b', r')))"

lemma ReadFull_pending:
  "ReadFull r n = ((bs, e), r') \<Longrightarrow> length (pending r') \<le> length (pending r)"
  by (auto simp: ReadFull_def split: if_splits)

lemma ReadFull_ok_pending:
  "ReadFull r n = ((bs, None), r') \<Longrightarrow> length (pending r') + n = length (pending r)"
  by (auto simp: ReadFull_def split: if_splits)

lemma CopyN_pending:
  "CopyN b r n = (e, b', r') \<Longrightarrow> length (pending r') \<le> length (pending r)"
  by (auto simp: CopyN_def split: prod.splits option.splits if_splits)

lemma relayChunk_pending:
  "relayChunk b r n = (e, b', r') \<Longrightarrow> length (pending r') \<le> length (pending r)"
  by (auto simp: relayChunk_def split: if_splits prod.splits option.splits
           dest: ReadFull_pending CopyN_pending)

function handleInstream_loop :: "nat \<Rightarrow> writer \<Rightarrow> reader \<Rightarrow> error option \<times> writer \<times> reader" where
  "handleInstream_loop chunks b r =
     (case ReadFull r 4 of
        ((sizeBytes, Some e), r1) \<Rightarrow> (Some (Wrapf ''failed to read chunk size'' e), b, r1)
      | ((sizeBytes, None), r1) \<Rightarrow>
          (case Write b sizeBytes of
             (Some e, b1) \<Rightarrow> (Some (Wrapf ''failed to forward chunk size'' e), b1, r1)
           | (None, b1) \<Rightarrow>
               if chunkSize sizeBytes = 0
               then (case Flush b1 of
                       (Some e, b2) \<Rightarrow> (Some (Wrapf ''failed to flush final data'' e), b2, r1)
                     | (None, b2) \<Rightarrow> (None, b2, r1))
               else
                 (case relayChunk b1 r1 (chunkSize sizeBytes) of
                    (Some e, b2, r2) \<Rightarrow> (Some e, b2, r2)
                  | (None, b2, r2) \<Rightarrow>
                      if (chunks + 1) mod 10 = 0
                      then (case Flush b2 of
                              (Some e, b3) \<Rightarrow> (Some (Wrapf ''failed to flush data'' e), b3, r2)
                            | (None, b3) \<Rightarrow> handleInstream_loop (chunks + 1) b3 r2)
                      else handleInstream_loop (chunks + 1) b2 r2)))"
  by pat_completeness auto
termination
  apply (relation "measure (\<lambda>(chunks, b, r). length (pending r))")
  apply simp
  subgoal
    apply clarsimp
    apply (drule ReadFull_ok_pending [OF sym])
    apply (drule relayChunk_pending [OF sym])
    apply simp
    done
  subgoal
    apply clarsimp
    apply (drule ReadFull_ok_pending [OF sym])
    apply (drule relayChunk_pending [OF sym])
    apply simp
    done
  done

declare handleInstream_loop.simps [simp del]

text \<open>
  One session: the two buffered writers. The backend connection \<^verbatim>\<open>p.backend\<close> is the
  connection \<open>wr (backendBuf p)\<close> its writer writes to; the client connection is read
  through the \<open>reader\<close> and written through \<open>clientBuf\<close>.
\<close>

record ClamdProxy =
  backendBuf :: writer
  clientBuf :: writer

text \<open>
  \<^verbatim>\<open>handleInstream\<close>: \<open>chunks\<close> starts at 0 (a count of chunks, far below the range
  of Go's \<^verbatim>\<open>int\<close>); \<^verbatim>\<open>totalBytes\<close> is only logged and is left out, as is the logging.
\<close>

definition handleInstream :: "ClamdProxy \<Rightarrow> reader \<Rightarrow> error option \<times> ClamdProxy \<times> reader" where
  "handleInstream p r =
     (case handleInstream_loop 0 (backendBuf p) r of
        (e, b, r') \<Rightarrow> (e, p\<lparr>backendBuf := b\<rparr>, r'))"

section \<open>The client to backend direction\<close>

text \<open>Why the direction stopped: one value for each \<^verbatim>\<open>break\<close> of the loop.\<close>

datatype exit_cause =
    ReadCommandFailed error
  | ForwardFailed error
  | FlushFailed error
  | InstreamFailed error
  | ResponseFailed error
  | ResponseFlushFailed error

text \<open>The text sent to the client for a command that is not allowed.\<close>

definition response :: string where
  "response = ''ERROR: Command not allowed'' @ [CHR 0x0A]"

text \<open>
  How much of the input one command and one chunk stream take: the loop below ends because
  every turn takes at least the delimiter. \<open>readCommand_loop_eq\<close> is the read loop in
  closed form: the bytes before the first delimiter, the delimiter, and the rest.
\<close>

definition isDelimiter :: "char \<Rightarrow> bool" where
  "isDelimiter b \<longleftrightarrow> b = nullDelimiter \<or> b = newlineDelimiter"

lemma readCommand_loop_eq:
  "readCommand_loop acc r =
     (case dropWhile (\<lambda>b. \<not> isDelimiter b) (pending r) of
        [] \<Rightarrow> (('''', CHR 0x00, Some (eof_err r)), r\<lparr>pending := []\<rparr>)
      | d # rest \<Rightarrow>
          ((acc @ takeWhile (\<lambda>b. \<not> isDelimiter b) (pending r), d, None),
           r\<lparr>pending := rest\<rparr>))"
proof (induction "pending r" arbitrary: acc r)
  case Nil
  then have "pending r = []" by simp
  then show ?case
    by (simp add: readCommand_loop.simps [of acc r] ReadByte_def)
next
  case (Cons b bs)
  then have p: "pending r = b # bs" by simp
  show ?case
  proof (cases "isDelimiter b")
    case True
    then show ?thesis
      using p by (auto simp: readCommand_loop.simps [of acc r] ReadByte_def isDelimiter_def)
  next
    case False
    have "bs = pending (r\<lparr>pending := bs\<rparr>)" by simp
    from Cons.hyps(1) [OF this, of "acc @ [b]"] False p show ?thesis
      by (simp add: readCommand_loop.simps [of acc r] ReadByte_def isDelimiter_def
               cong: list.case_cong)
  qed
qed

lemma readCommand_pending:
  assumes "readCommand r = ((cmd, delim, None), r')"
  shows "length (pending r') < length (pending r)"
proof -
  have "length (dropWhile (\<lambda>b. \<not> isDelimiter b) (pending r)) \<le> length (pending r)"
    by (rule length_dropWhile_le)
  with assms show ?thesis
    by (auto simp: readCommand_def readCommand_loop_eq split: list.splits)
qed

lemma handleInstream_loop_pending:
  "handleInstream_loop chunks b r = (e, b', r') \<Longrightarrow>
     length (pending r') \<le> length (pending r)"
proof (induction "length (pending r)" arbitrary: chunks b r rule: less_induct)
  case less
  note step = less.prems [unfolded handleInstream_loop.simps [of chunks b r]]
  show ?case
  proof (cases "ReadFull r 4")
    case (Pair x r1)
    obtain sizeBytes e1 where x: "x = (sizeBytes, e1)" by (cases x)
    note rf = Pair [unfolded x]
    show ?thesis
    proof (cases e1)
      case (Some a)
      with step rf ReadFull_pending [OF rf] show ?thesis by auto
    next
      case None
      note rf = rf [unfolded None]
      have l1: "length (pending r1) + 4 = length (pending r)"
        by (rule ReadFull_ok_pending [OF rf])
      obtain e2 b1 where w: "Write b sizeBytes = (e2, b1)" by (cases "Write b sizeBytes")
      show ?thesis
      proof (cases e2)
        case (Some a)
        with step rf w l1 show ?thesis by auto
      next
        case None
        note w = w [unfolded None]
        show ?thesis
        proof (cases "chunkSize sizeBytes = 0")
          case True
          with step rf w l1 show ?thesis
            by (auto split: prod.splits option.splits)
        next
          case False
          obtain e3 b2 r2 where rc: "relayChunk b1 r1 (chunkSize sizeBytes) = (e3, b2, r2)"
            by (cases "relayChunk b1 r1 (chunkSize sizeBytes)")
          have l2: "length (pending r2) \<le> length (pending r1)"
            by (rule relayChunk_pending [OF rc])
          then have lt: "length (pending r2) < length (pending r)" using l1 by simp
          show ?thesis
          proof (cases e3)
            case (Some a)
            with step rf w rc False l1 l2 show ?thesis by auto
          next
            case None
            have "length (pending r') \<le> length (pending r2)"
              if "handleInstream_loop k c r2 = (e, b', r')" for k c
              using less.hyps [OF lt that] .
            with None step rf w rc False l1 l2 show ?thesis
              by (fastforce split: prod.splits option.splits if_splits)
          qed
        qed
      qed
    qed
  qed
qed

lemma handleInstream_pending:
  "handleInstream p r = (e, p', r') \<Longrightarrow> length (pending r') \<le> length (pending r)"
  by (auto simp: handleInstream_def split: prod.splits dest: handleInstream_loop_pending)

text \<open>
  \<^verbatim>\<open>handleClientToBackend\<close>: the result is why the loop stopped, and the session and
  the reader as it left them. Closing \<^verbatim>\<open>p.backend\<close> closes the connection of
  \<open>backendBuf\<close>; the error of the close is only logged.
\<close>

function handleClientToBackend :: "ClamdProxy \<Rightarrow> reader \<Rightarrow> exit_cause \<times> ClamdProxy \<times> reader" where
  "handleClientToBackend p reader =
     (case readCommand reader of
        ((cmd, delim, Some e), r1) \<Rightarrow>
          (case conn_Close (wr (backendBuf p)) of
             (ce, c) \<Rightarrow> (ReadCommandFailed e, p\<lparr>backendBuf := (backendBuf p)\<lparr>wr := c\<rparr>\<rparr>, r1))
      | ((cmd, delim, None), r1) \<Rightarrow>
          if isCommandAllowed cmd
          then
            (case Write (backendBuf p) (cmd @ [delim]) of
               (Some e, b1) \<Rightarrow> (ForwardFailed e, p\<lparr>backendBuf := b1\<rparr>, r1)
             | (None, b1) \<Rightarrow>
                 (case Flush b1 of
                    (Some e, b2) \<Rightarrow> (FlushFailed e, p\<lparr>backendBuf := b2\<rparr>, r1)
                  | (None, b2) \<Rightarrow>
                      if isInstreamCommand cmd
                      then
                        (case handleInstream (p\<lparr>backendBuf := b2\<rparr>) r1 of
                           (Some e, p', r2) \<Rightarrow> (InstreamFailed e, p', r2)
                         | (None, p', r2) \<Rightarrow> handleClientToBackend p' r2)
                      else handleClientToBackend (p\<lparr>backendBuf := b2\<rparr>) r1))
          else
            (case WriteString (clientBuf p) response of
               (Some e, c1) \<Rightarrow> (ResponseFailed e, p\<lparr>clientBuf := c1\<rparr>, r1)
             | (None, c1) \<Rightarrow>
                 (case Flush c1 of
                    (Some e, c2) \<Rightarrow> (ResponseFlushFailed e, p\<lparr>clientBuf := c2\<rparr>, r1)
                  | (None, c2) \<Rightarrow> handleClientToBackend (p\<lparr>clientBuf := c2\<rparr>) r1)))"
  by pat_completeness auto
termination
  apply (relation "measure (\<lambda>(p, reader). length (pending reader))")
     apply simp
  subgoal
    apply clarsimp
    apply (drule readCommand_pending [OF sym])
    apply (drule handleInstream_pending [OF sym])
    apply simp
    done
  subgoal
    apply clarsimp
    apply (drule readCommand_pending [OF sym])
    apply simp
    done
  subgoal
    apply clarsimp
    apply (drule readCommand_pending [OF sym])
    apply simp
    done
  done

declare handleClientToBackend.simps [simp del]

subsection \<open>A session as it starts\<close>

text \<open>
  \<^verbatim>\<open>NewClamdProxy\<close>: both writers start empty. \<open>mockConn\<close> is the connection of the
  repository's tests, whose \<^verbatim>\<open>Write\<close> takes every byte.
\<close>

definition NewClamdProxy :: "conn \<Rightarrow> conn \<Rightarrow> ClamdProxy" where
  "NewClamdProxy client backend =
     \<lparr>backendBuf = \<lparr>wr = backend, buf = [], err = None\<rparr>,
      clientBuf = \<lparr>wr = client, buf = [], err = None\<rparr>\<rparr>"

definition mockConn :: conn where
  "mockConn = \<lparr>sent = [], room = None, fault = Errno EPIPE, closed = False\<rparr>"

section \<open>The backend to client direction\<close>

text \<open>
  \<^verbatim>\<open>Start\<close> launches \<open>handleClientToBackend\<close> in a goroutine of its own and then copies
  from the backend to \<open>clientBuf\<close> in the calling goroutine. \<open>clientBuf\<close> is also the
  writer the rejection branch of \<open>handleClientToBackend\<close> writes to and flushes, and no
  lock stands between the two goroutines.
\<close>

subsection \<open>A flush in two steps\<close>

text \<open>
  \<^verbatim>\<open>Writer.Flush\<close> in the two steps another goroutine can fall between: the write of the
  buffered bytes on the connection, which gives a count and an error, and the bookkeeping
  after it, which compares the count with the number of bytes the buffer holds by then,
  moves what is left to the front and records the error. \<open>Flush_write\<close> gives \<open>None\<close>
  where \<^verbatim>\<open>Flush\<close> returns before it writes.
\<close>

definition Flush_write :: "writer \<Rightarrow> (nat \<times> error option) option \<times> writer" where
  "Flush_write b =
     (if err b = None \<and> buf b \<noteq> []
      then (case conn_Write (wr b) (buf b) of (n, e, c) \<Rightarrow> (Some (n, e), b\<lparr>wr := c\<rparr>))
      else (None, b))"

definition Flush_finish :: "nat \<Rightarrow> error option \<Rightarrow> writer \<Rightarrow> error option \<times> writer" where
  "Flush_finish n e b =
     (case (if n < length (buf b) \<and> e = None then Some ErrShortWrite else e) of
        Some x \<Rightarrow> (Some x, b\<lparr>buf := drop n (buf b), err := Some x\<rparr>)
      | None \<Rightarrow> (None, b\<lparr>buf := []\<rparr>))"

subsection \<open>The copy loop\<close>

text \<open>
  The loop of \<^verbatim>\<open>Start\<close>, run on its own. \<open>reads\<close> are the pieces the backend connection
  delivers, one \<^verbatim>\<open>Read\<close> after the other, and \<open>er\<close> is the error that ends them (\<open>EOF\<close>
  when the backend closes, which the loop does not report). Each piece is written to
  \<open>clientBuf\<close>; a write error ends the loop (\<^verbatim>\<open>Writer.Write\<close> takes fewer bytes than it
  is given only with an error, so the test \<^verbatim>\<open>nr != nw\<close> adds nothing). After each read
  the buffer is flushed once it holds more than 32 KiB. \<^verbatim>\<open>Start\<close> flushes once more
  when the loop has ended, whatever ended it. The errors of these flushes are only logged.
\<close>

fun Start_loop :: "writer \<Rightarrow> string list \<Rightarrow> error \<Rightarrow> error option \<times> writer" where
  "Start_loop c [] er = (if er = EOF then None else Some er, c)"
| "Start_loop c (bs # reads) er =
     (if bs = [] then Start_loop (if 32 * 1024 < length (buf c) then snd (Flush c) else c) reads er
      else case Write c bs of
             (Some ew, c1) \<Rightarrow> (Some ew, c1)
           | (None, c1) \<Rightarrow>
               Start_loop (if 32 * 1024 < length (buf c1) then snd (Flush c1) else c1) reads er)"

definition Start :: "ClamdProxy \<Rightarrow> string list \<Rightarrow> error \<Rightarrow> error option \<times> ClamdProxy" where
  "Start p reads er =
     (case Start_loop (clientBuf p) reads er of
        (e, c) \<Rightarrow> (e, p\<lparr>clientBuf := snd (Flush c)\<rparr>))"

subsection \<open>The rejection branch beside it\<close>

text \<open>
  The rejection branch of \<open>handleClientToBackend\<close>: the response is written to
  \<open>clientBuf\<close>, then \<open>clientBuf\<close> is flushed, and an error of either ends the direction.
  \<open>other\<close> is what the goroutine of \<^verbatim>\<open>Start\<close> does to the writer between the two calls:
  the identity when the branch runs undisturbed.
\<close>

definition rejectCommand :: "(writer \<Rightarrow> writer) \<Rightarrow> ClamdProxy \<Rightarrow> exit_cause option \<times> ClamdProxy" where
  "rejectCommand other p =
     (case WriteString (clientBuf p) response of
        (Some e, c1) \<Rightarrow> (Some (ResponseFailed e), p\<lparr>clientBuf := c1\<rparr>)
      | (None, c1) \<Rightarrow>
          (case Flush (other c1) of
             (Some e, c2) \<Rightarrow> (Some (ResponseFlushFailed e), p\<lparr>clientBuf := c2\<rparr>)
           | (None, c2) \<Rightarrow> (None, p\<lparr>clientBuf := c2\<rparr>)))"

section \<open>The notions in which the properties are stated\<close>

subsection \<open>Kinds of errors\<close>

text \<open>
  The words of the order of cases, said of the chain of an error: the error itself and,
  under each wrapper, the error it holds. A network error is a value of one of the types
  with the methods of \<^verbatim>\<open>net.Error\<close>. A timeout error is one whose first network error
  in the chain reports a timeout; an operational network error is one with a
  \<^verbatim>\<open>*net.OpError\<close> in its chain; a closure signal is one with end-of-stream, unexpected
  end-of-stream, broken pipe or connection reset in its chain.
\<close>

fun chain :: "error \<Rightarrow> error list" where
  "chain (SyscallError s e) = SyscallError s e # chain e"
| "chain (OpError s e) = OpError s e # chain e"
| "chain (Wrapf m e) = Wrapf m e # chain e"
| "chain e = [e]"

definition networkError :: "error \<Rightarrow> bool" where
  "networkError x \<longleftrightarrow>
     (\<exists>n. x = Errno n) \<or> x = DeadlineExceeded \<or> x = ErrNetClosing \<or> (\<exists>op y. x = OpError op y)"

definition timeoutError :: "error \<Rightarrow> bool" where
  "timeoutError e \<longleftrightarrow>
     (case find networkError (chain e) of None \<Rightarrow> False | Some x \<Rightarrow> Timeout x = Some True)"

definition operationalError :: "error \<Rightarrow> bool" where
  "operationalError e \<longleftrightarrow> (\<exists>op y. OpError op y \<in> set (chain e))"

definition closureSignal :: "error \<Rightarrow> bool" where
  "closureSignal e \<longleftrightarrow>
     EOF \<in> set (chain e) \<or> ErrUnexpectedEOF \<in> set (chain e) \<or>
     Errno EPIPE \<in> set (chain e) \<or> Errno ECONNRESET \<in> set (chain e)"

subsection \<open>The first token of a command\<close>

text \<open>
  The first white-space-separated token of a string, read off the string itself:
  the leading white space is dropped, and the token runs to the next white-space rune
  or to the end.
\<close>

function skipSpaces :: "string \<Rightarrow> string" where
  "skipSpaces [] = []"
| "skipSpaces (c # cs) =
     (if IsSpace (fst (DecodeRune (c # cs)))
      then skipSpaces (drop (snd (DecodeRune (c # cs))) (c # cs))
      else c # cs)"
  by pat_completeness auto
termination
proof (relation "measure length")
  show "wf (measure length)" by simp
next
  fix c :: char and cs :: string
  have "1 \<le> snd (DecodeRune (c # cs))" by (rule DecodeRune_width)
  then show "(drop (snd (DecodeRune (c # cs))) (c # cs), c # cs) \<in> measure length"
    by simp
qed

function takeToken :: "string \<Rightarrow> string" where
  "takeToken [] = []"
| "takeToken (c # cs) =
     (if IsSpace (fst (DecodeRune (c # cs)))
      then []
      else take (snd (DecodeRune (c # cs))) (c # cs) @
           takeToken (drop (snd (DecodeRune (c # cs))) (c # cs)))"
  by pat_completeness auto
termination
proof (relation "measure length")
  show "wf (measure length)" by simp
next
  fix c :: char and cs :: string
  have "1 \<le> snd (DecodeRune (c # cs))" by (rule DecodeRune_width)
  then show "(drop (snd (DecodeRune (c # cs))) (c # cs), c # cs) \<in> measure length"
    by simp
qed

definition firstToken :: "string \<Rightarrow> string" where
  "firstToken s = takeToken (skipSpaces s)"

text \<open>The token without one leading \<open>z\<close> or \<open>n\<close>.\<close>

definition stripVariant :: "string \<Rightarrow> string" where
  "stripVariant t =
     (case t of
        [] \<Rightarrow> []
      | c # cs \<Rightarrow> if c = CHR ''z'' \<or> c = CHR ''n'' then cs else c # cs)"

text \<open>An argument separated from a plain ASCII token by an ASCII space character.\<close>

definition asciiSpace :: "char \<Rightarrow> bool" where
  "asciiSpace c \<longleftrightarrow>
     c = CHR 0x09 \<or> c = CHR 0x0A \<or> c = CHR 0x0B \<or> c = CHR 0x0C \<or> c = CHR 0x0D \<or> c = CHR 0x20"

definition plainToken :: "string \<Rightarrow> bool" where
  "plainToken t \<longleftrightarrow> t \<noteq> [] \<and> list_all (\<lambda>c. (of_char c :: nat) < 0x80 \<and> \<not> asciiSpace c) t"

subsection \<open>Writers whose connection takes every write\<close>

text \<open>
  A writer is healthy when it has recorded no error and its connection is open and never
  fails. \<open>flushed b\<close> is the writer after its buffer has gone out on the connection.
\<close>

definition healthy :: "writer \<Rightarrow> bool" where
  "healthy b \<longleftrightarrow> err b = None \<and> room (wr b) = None \<and> \<not> closed (wr b)"

definition flushed :: "writer \<Rightarrow> writer" where
  "flushed b = b\<lparr>wr := (wr b)\<lparr>sent := sent (wr b) @ buf b\<rparr>, buf := []\<rparr>"

subsection \<open>Well-formed chunk streams\<close>

text \<open>
  A well-formed chunk stream, as the protocol describes it: each payload after its length
  in four bytes, most significant first, and a zero length at the end.
\<close>

definition be32 :: "nat \<Rightarrow> string" where
  "be32 n = [char_of (n div 2 ^ 24), char_of (n div 2 ^ 16), char_of (n div 2 ^ 8), char_of n]"

definition encodeChunk :: "string \<Rightarrow> string" where
  "encodeChunk payload = be32 (length payload) @ payload"

definition chunkStream :: "string list \<Rightarrow> string" where
  "chunkStream payloads = concat (map encodeChunk payloads) @ be32 0"

definition wellFormed :: "string list \<Rightarrow> bool" where
  "wellFormed payloads \<longleftrightarrow> list_all (\<lambda>p. 0 < length p \<and> length p < 2 ^ 32) payloads"

section \<open>Properties of the command reader\<close>

text \<open>
  Claim C4. When the bytes still to come are a name free of NUL and LF, then a NUL or LF
  byte \<open>d\<close>, then anything, \<open>readCommand\<close> returns exactly the name and \<open>d\<close> with no
  error and leaves the reader after \<open>d\<close>; the name may be empty. When the bytes to
  come hold no NUL and no LF, \<open>readCommand\<close> returns the reader's error, whether or
  not bytes were read.
\<close>

theorem readCommand_delimited:
  "(pending r = name @ d # rest \<and> (d = nullDelimiter \<or> d = newlineDelimiter) \<and>
    nullDelimiter \<notin> set name \<and> newlineDelimiter \<notin> set name
      \<longrightarrow> readCommand r = ((name, d, None), r\<lparr>pending := rest\<rparr>)) \<and>
   (nullDelimiter \<notin> set (pending r) \<and> newlineDelimiter \<notin> set (pending r)
      \<longrightarrow> readCommand r = (('''', CHR 0x00, Some (eof_err r)), r\<lparr>pending := []\<rparr>))"
proof (intro conjI impI)
  assume a: "pending r = name @ d # rest \<and> (d = nullDelimiter \<or> d = newlineDelimiter) \<and>
    nullDelimiter \<notin> set name \<and> newlineDelimiter \<notin> set name"
  then have n: "\<forall>b \<in> set name. \<not> isDelimiter b" and d: "isDelimiter d"
    by (auto simp: isDelimiter_def)
  have "dropWhile (\<lambda>b. \<not> isDelimiter b) (name @ d # rest) = d # rest"
    using n d by (simp add: dropWhile_append3)
  moreover have "takeWhile (\<lambda>b. \<not> isDelimiter b) (name @ d # rest) = name"
    using n d by (simp add: takeWhile_tail)
  ultimately show "readCommand r = ((name, d, None), r\<lparr>pending := rest\<rparr>)"
    using a by (simp add: readCommand_def readCommand_loop_eq)
next
  assume "nullDelimiter \<notin> set (pending r) \<and> newlineDelimiter \<notin> set (pending r)"
  then have "\<forall>b \<in> set (pending r). \<not> isDelimiter b"
    by (auto simp: isDelimiter_def)
  then have "dropWhile (\<lambda>b. \<not> isDelimiter b) (pending r) = []"
    by simp
  then show "readCommand r = (('''', CHR 0x00, Some (eof_err r)), r\<lparr>pending := []\<rparr>)"
    unfolding readCommand_def readCommand_loop_eq by (simp only: list.case)
qed

theorem readCommand_delimited_witness:
  "readCommand \<lparr>pending = ''PING'' @ CHR 0x0A # ''zVERSION'', eof_err = EOF\<rparr>
     = ((''PING'', CHR 0x0A, None), \<lparr>pending = ''zVERSION'', eof_err = EOF\<rparr>) \<and>
   readCommand \<lparr>pending = [] @ CHR 0x00 # [], eof_err = EOF\<rparr>
     = (('''', CHR 0x00, None), \<lparr>pending = [], eof_err = EOF\<rparr>) \<and>
   readCommand \<lparr>pending = ''PING'', eof_err = EOF\<rparr>
     = (('''', CHR 0x00, Some EOF), \<lparr>pending = [], eof_err = EOF\<rparr>)"
proof -
  let ?r1 = "\<lparr>pending = ''PING'' @ CHR 0x0A # ''zVERSION'', eof_err = EOF\<rparr>"
  let ?r2 = "\<lparr>pending = [] @ CHR 0x00 # [], eof_err = EOF\<rparr>"
  let ?r3 = "\<lparr>pending = ''PING'', eof_err = EOF\<rparr>"
  have h1: "pending ?r1 = ''PING'' @ CHR 0x0A # ''zVERSION'' \<and>
      (CHR 0x0A = nullDelimiter \<or> CHR 0x0A = newlineDelimiter) \<and>
      nullDelimiter \<notin> set ''PING'' \<and> newlineDelimiter \<notin> set ''PING''"
    by (simp add: nullDelimiter_def newlineDelimiter_def)
  have h2: "pending ?r2 = [] @ CHR 0x00 # [] \<and>
      (CHR 0x00 = nullDelimiter \<or> CHR 0x00 = newlineDelimiter) \<and>
      nullDelimiter \<notin> set [] \<and> newlineDelimiter \<notin> set []"
    by (simp add: nullDelimiter_def newlineDelimiter_def)
  have h3: "nullDelimiter \<notin> set (pending ?r3) \<and> newlineDelimiter \<notin> set (pending ?r3)"
    by (simp add: nullDelimiter_def newlineDelimiter_def)
  from readCommand_delimited [THEN conjunct1, THEN mp, OF h1]
       readCommand_delimited [THEN conjunct1, THEN mp, OF h2]
       readCommand_delimited [THEN conjunct2, THEN mp, OF h3]
  show ?thesis by simp
qed

text \<open>
  Claim C10. A command name that \<open>readCommand\<close> returns without an error holds no NUL
  and no LF byte; with an error it returns the empty string and a zero delimiter.
\<close>

theorem readCommand_result_shape:
  "readCommand r = ((cmd, delim, e), r') \<Longrightarrow>
     (e = None \<longrightarrow> nullDelimiter \<notin> set cmd \<and> newlineDelimiter \<notin> set cmd) \<and>
     (e \<noteq> None \<longrightarrow> cmd = '''' \<and> delim = CHR 0x00)"
proof -
  assume a: "readCommand r = ((cmd, delim, e), r')"
  let ?pre = "takeWhile (\<lambda>b. \<not> isDelimiter b) (pending r)"
  have nd: "\<not> isDelimiter b" if "b \<in> set ?pre" for b
    using set_takeWhileD [OF that] by simp
  have pre: "nullDelimiter \<notin> set ?pre \<and> newlineDelimiter \<notin> set ?pre"
    using nd [of nullDelimiter] nd [of newlineDelimiter] by (auto simp: isDelimiter_def)
  show ?thesis
  proof (cases "dropWhile (\<lambda>b. \<not> isDelimiter b) (pending r)")
    case Nil
    have "readCommand r = (('''', CHR 0x00, Some (eof_err r)), r\<lparr>pending := []\<rparr>)"
      unfolding readCommand_def readCommand_loop_eq Nil by (simp only: list.case)
    with a show ?thesis by simp
  next
    case (Cons d rest)
    have "readCommand r = (([] @ ?pre, d, None), r\<lparr>pending := rest\<rparr>)"
      unfolding readCommand_def readCommand_loop_eq Cons by (simp only: list.case)
    with a have "cmd = ?pre" and "e = None" by simp_all
    with pre show ?thesis by simp
  qed
qed

theorem readCommand_result_shape_witness:
  "(nullDelimiter \<notin> set ''nINSTREAM'' \<and> newlineDelimiter \<notin> set ''nINSTREAM'') \<and>
   readCommand \<lparr>pending = ''nINSTREAM'' @ [CHR 0x0A], eof_err = EOF\<rparr>
     = ((''nINSTREAM'', CHR 0x0A, None), \<lparr>pending = [], eof_err = EOF\<rparr>) \<and>
   readCommand \<lparr>pending = ''nINSTR'', eof_err = ErrorString ''reset''\<rparr>
     = (('''', CHR 0x00, Some (ErrorString ''reset'')),
        \<lparr>pending = [], eof_err = ErrorString ''reset''\<rparr>)"
proof -
  have r: "readCommand \<lparr>pending = ''nINSTREAM'' @ [CHR 0x0A], eof_err = EOF\<rparr>
     = ((''nINSTREAM'', CHR 0x0A, None), \<lparr>pending = [], eof_err = EOF\<rparr>)"
    by (simp add: readCommand_def readCommand_loop_eq isDelimiter_def nullDelimiter_def
        newlineDelimiter_def)
  have q: "readCommand \<lparr>pending = ''nINSTR'', eof_err = ErrorString ''reset''\<rparr>
     = (('''', CHR 0x00, Some (ErrorString ''reset'')),
        \<lparr>pending = [], eof_err = ErrorString ''reset''\<rparr>)"
    by (simp add: readCommand_def readCommand_loop_eq isDelimiter_def nullDelimiter_def
        newlineDelimiter_def)
  have "nullDelimiter \<notin> set ''nINSTREAM'' \<and> newlineDelimiter \<notin> set ''nINSTREAM''"
    using readCommand_result_shape [OF r] by blast
  with r q show ?thesis by blast
qed

section \<open>Properties of the command classifier\<close>

text \<open>What \<open>isInstreamCommand\<close> accepts: a first byte and the last eight.\<close>

lemma isInstreamCommand_iff:
  "isInstreamCommand cmd \<longleftrightarrow>
     (\<exists>mid. cmd = ''z'' @ mid @ ''INSTREAM'' \<or> cmd = ''n'' @ mid @ ''INSTREAM'')"
proof
  assume a: "isInstreamCommand cmd"
  define u where "u = take (length cmd - length ''INSTREAM'') cmd"
  from a have "drop (length cmd - length ''INSTREAM'') cmd = ''INSTREAM''"
    by (auto simp: isInstreamCommand_def HasSuffix_def)
  then have c: "cmd = u @ ''INSTREAM''"
    unfolding u_def
    using append_take_drop_id [of "length cmd - length ''INSTREAM''" cmd] by metis
  from a obtain t where h: "cmd = CHR ''z'' # t \<or> cmd = CHR ''n'' # t"
    by (cases cmd) (auto simp: isInstreamCommand_def HasPrefix_def)
  have "u \<noteq> []"
    using c h by auto
  then obtain x mid where "u = x # mid" by (cases u) auto
  with c have "cmd = x # mid @ ''INSTREAM''" by simp
  with h show "\<exists>mid. cmd = ''z'' @ mid @ ''INSTREAM'' \<or> cmd = ''n'' @ mid @ ''INSTREAM''"
    by auto
next
  assume "\<exists>mid. cmd = ''z'' @ mid @ ''INSTREAM'' \<or> cmd = ''n'' @ mid @ ''INSTREAM''"
  then show "isInstreamCommand cmd"
    by (auto simp: isInstreamCommand_def HasPrefix_def HasSuffix_def)
qed

text \<open>
  Claim C1. \<open>isInstreamCommand\<close> is meant to hold of the two strings \<open>zINSTREAM\<close> and
  \<open>nINSTREAM\<close> only. It looks at the first byte and at the last eight, so it also
  holds of \<open>zPING INSTREAM\<close>, a command that \<open>isCommandAllowed\<close> lets through as a
  \<open>PING\<close>: the proxy then relays what follows as chunks.
\<close>

theorem isInstreamCommand_zPING_INSTREAM:
  "isInstreamCommand ''zPING INSTREAM'' \<and> isCommandAllowed ''zPING INSTREAM'' \<and>
   Fields ''zPING INSTREAM'' = [''zPING'', ''INSTREAM'']"
proof -
  have f: "Fields ''zPING INSTREAM'' = [''zPING'', ''INSTREAM'']"
    by (simp add: Fields_def IsSpace_def DecodeRune.simps Let_def)
  have "isCommandAllowed ''zPING INSTREAM''"
    by (simp add: isCommandAllowed_def f HasPrefix_def lookup_def allowedCommands_def)
  moreover have "isInstreamCommand ''zPING INSTREAM''"
    by (simp add: isInstreamCommand_def HasPrefix_def HasSuffix_def)
  ultimately show ?thesis using f by simp
qed

section \<open>Properties of the connection error classifier\<close>

text \<open>
  The tests of the code against these notions: \<^verbatim>\<open>errors.As\<close> finds the first error of
  the chain of the type asked for, \<^verbatim>\<open>errors.Is\<close> tells whether the target is in the chain.
\<close>

lemma chain_Unwrap:
  "chain e = e # (case Unwrap e of None \<Rightarrow> [] | Some e' \<Rightarrow> chain e')"
  by (cases e) simp_all

lemma errorsAs_find: "errorsAs T e = find T (chain e)"
proof (induction e)
  case (SyscallError s e)
  then show ?case by (simp add: errorsAs.simps [of T "SyscallError s e"])
next
  case (OpError s e)
  then show ?case by (simp add: errorsAs.simps [of T "OpError s e"])
next
  case (Wrapf m e)
  then show ?case by (simp add: errorsAs.simps [of T "Wrapf m e"])
qed (simp_all add: errorsAs.simps)

lemma errorsIs_chain: "errorsIs e t \<longleftrightarrow> t \<in> set (chain e)"
proof (induction e)
  case (SyscallError s e)
  then show ?case by (auto simp: errorsIs.simps [of "SyscallError s e"])
next
  case (OpError s e)
  then show ?case by (auto simp: errorsIs.simps [of "OpError s e"])
next
  case (Wrapf m e)
  then show ?case by (auto simp: errorsIs.simps [of "Wrapf m e"])
qed (auto simp: errorsIs.simps)

lemma isNetError_networkError: "isNetError = networkError"
proof
  fix x show "isNetError x = networkError x"
    by (cases x) (simp_all add: networkError_def)
qed

lemma isOpError_iff: "isOpError x \<longleftrightarrow> (\<exists>op y. x = OpError op y)"
  by (cases x) simp_all

lemma find_isOpError: "find isOpError xs \<noteq> None \<longleftrightarrow> (\<exists>op y. OpError op y \<in> set xs)"
  by (induction xs) (auto simp: isOpError_iff)

lemma tests_as_notions:
  "(case errorsAs isNetError e of None \<Rightarrow> False | Some netErr \<Rightarrow> Timeout netErr = Some True)
     = timeoutError e"
  "(errorsAs isOpError e \<noteq> None) = operationalError e"
  "(errorsIs e EOF \<or> errorsIs e ErrUnexpectedEOF \<or>
    errorsIs e (Errno EPIPE) \<or> errorsIs e (Errno ECONNRESET)) = closureSignal e"
proof -
  show "(case errorsAs isNetError e of None \<Rightarrow> False | Some netErr \<Rightarrow> Timeout netErr = Some True)
     = timeoutError e"
    by (simp only: errorsAs_find isNetError_networkError timeoutError_def)
  show "(errorsAs isOpError e \<noteq> None) = operationalError e"
    by (simp only: errorsAs_find find_isOpError operationalError_def)
  show "(errorsIs e EOF \<or> errorsIs e ErrUnexpectedEOF \<or>
    errorsIs e (Errno EPIPE) \<or> errorsIs e (Errno ECONNRESET)) = closureSignal e"
    by (simp only: errorsIs_chain closureSignal_def)
qed

lemma isConnectionClosed_eq:
  "isConnectionClosed (Some e) \<longleftrightarrow>
     \<not> timeoutError e \<and> (operationalError e \<or> closureSignal e)"
  unfolding isConnectionClosed.simps tests_as_notions by auto

text \<open>
  Claim C7. \<open>isConnectionClosed\<close> decides in this order: the nil error is not closed;
  a timeout error is not closed, also when it is an operational network error; otherwise
  an operational network error is closed; otherwise a closure signal is closed; every
  other error is not closed. So a \<^verbatim>\<open>*net.OpError\<close> is closed exactly when it is no
  timeout, and wrapping an error with \<^verbatim>\<open>fmt.Errorf\<close> and \<^verbatim>\<open>%w\<close> changes nothing.
\<close>

theorem isConnectionClosed_order:
  "isConnectionClosed None = False \<and>
   (timeoutError e \<longrightarrow> isConnectionClosed (Some e) = False) \<and>
   (\<not> timeoutError e \<and> operationalError e \<longrightarrow> isConnectionClosed (Some e) = True) \<and>
   (\<not> timeoutError e \<and> \<not> operationalError e \<and> closureSignal e
      \<longrightarrow> isConnectionClosed (Some e) = True) \<and>
   (\<not> timeoutError e \<and> \<not> operationalError e \<and> \<not> closureSignal e
      \<longrightarrow> isConnectionClosed (Some e) = False) \<and>
   isConnectionClosed (Some (OpError op x)) = (Timeout (OpError op x) \<noteq> Some True) \<and>
   isConnectionClosed (Some (Wrapf m e)) = isConnectionClosed (Some e)"
proof -
  have o: "isConnectionClosed (Some (OpError op x)) = (Timeout (OpError op x) \<noteq> Some True)"
  proof -
    have "operationalError (OpError op x)"
      unfolding operationalError_def by (rule exI [of _ op], rule exI [of _ x]) simp
    moreover have "timeoutError (OpError op x) = (Timeout (OpError op x) = Some True)"
      by (simp add: timeoutError_def networkError_def)
    ultimately show ?thesis
      unfolding isConnectionClosed_eq by simp
  qed
  have w: "isConnectionClosed (Some (Wrapf m e)) = isConnectionClosed (Some e)"
    unfolding isConnectionClosed_eq
    by (simp add: timeoutError_def operationalError_def closureSignal_def networkError_def
        EPIPE_def ECONNRESET_def)
  have n: "isConnectionClosed None = False" by simp
  have c: "(timeoutError e \<longrightarrow> isConnectionClosed (Some e) = False) \<and>
   (\<not> timeoutError e \<and> operationalError e \<longrightarrow> isConnectionClosed (Some e) = True) \<and>
   (\<not> timeoutError e \<and> \<not> operationalError e \<and> closureSignal e
      \<longrightarrow> isConnectionClosed (Some e) = True) \<and>
   (\<not> timeoutError e \<and> \<not> operationalError e \<and> \<not> closureSignal e
      \<longrightarrow> isConnectionClosed (Some e) = False)"
    unfolding isConnectionClosed_eq by blast
  from n c o w show ?thesis by blast
qed

theorem isConnectionClosed_order_witness:
  "isConnectionClosed (Some (OpError ''read'' DeadlineExceeded)) = False \<and>
   isConnectionClosed (Some (OpError ''write'' (SyscallError ''write'' (Errno ETIMEDOUT)))) = False \<and>
   isConnectionClosed (Some DeadlineExceeded) = False \<and>
   isConnectionClosed (Some (OpError ''write'' ErrNetClosing)) = True \<and>
   isConnectionClosed
     (Some (Wrapf ''failed to read chunk size''
              (OpError ''read'' (SyscallError ''read'' (Errno ECONNRESET))))) = True \<and>
   isConnectionClosed (Some EOF) = True \<and>
   isConnectionClosed (Some (Wrapf ''failed to read chunk data'' ErrUnexpectedEOF)) = True \<and>
   isConnectionClosed (Some (Errno EPIPE)) = True \<and>
   isConnectionClosed (Some (SyscallError ''read'' (Errno ECONNRESET))) = True \<and>
   isConnectionClosed (Some ErrShortWrite) = False \<and>
   isConnectionClosed (Some ErrNetClosing) = False"
proof -
  let ?t1 = "OpError ''read'' DeadlineExceeded"
  let ?t2 = "OpError ''write'' (SyscallError ''write'' (Errno ETIMEDOUT))"
  let ?o1 = "OpError ''write'' ErrNetClosing"
  let ?o2 = "Wrapf ''failed to read chunk size''
              (OpError ''read'' (SyscallError ''read'' (Errno ECONNRESET)))"
  let ?u = "Wrapf ''failed to read chunk data'' ErrUnexpectedEOF"
  let ?s = "SyscallError ''read'' (Errno ECONNRESET)"
  note defs = timeoutError_def operationalError_def closureSignal_def networkError_def
    EPIPE_def ECONNRESET_def EAGAIN_def ETIMEDOUT_def
  have t: "timeoutError ?t1" "timeoutError ?t2" "timeoutError DeadlineExceeded"
    by (simp_all add: defs)
  have o: "\<not> timeoutError ?o1 \<and> operationalError ?o1"
    "\<not> timeoutError ?o2 \<and> operationalError ?o2"
    by (simp_all add: defs)
  have s: "\<not> timeoutError EOF \<and> \<not> operationalError EOF \<and> closureSignal EOF"
    "\<not> timeoutError ?u \<and> \<not> operationalError ?u \<and> closureSignal ?u"
    "\<not> timeoutError (Errno EPIPE) \<and> \<not> operationalError (Errno EPIPE) \<and>
     closureSignal (Errno EPIPE)"
    "\<not> timeoutError ?s \<and> \<not> operationalError ?s \<and> closureSignal ?s"
    by (simp_all add: defs)
  have n: "\<not> timeoutError ErrShortWrite \<and> \<not> operationalError ErrShortWrite \<and>
     \<not> closureSignal ErrShortWrite"
    "\<not> timeoutError ErrNetClosing \<and> \<not> operationalError ErrNetClosing \<and>
     \<not> closureSignal ErrNetClosing"
    by (simp_all add: defs)
  note timeout_case = isConnectionClosed_order [THEN conjunct2, THEN conjunct1, THEN mp]
  note op_case =
    isConnectionClosed_order [THEN conjunct2, THEN conjunct2, THEN conjunct1, THEN mp]
  note signal_case =
    isConnectionClosed_order [THEN conjunct2, THEN conjunct2, THEN conjunct2, THEN conjunct1,
      THEN mp]
  note other_case =
    isConnectionClosed_order [THEN conjunct2, THEN conjunct2, THEN conjunct2, THEN conjunct2,
      THEN conjunct1, THEN mp]
  show ?thesis
    by (intro conjI timeout_case op_case signal_case other_case t o s n)
qed

section \<open>The allow-list decision and the first token\<close>

lemma FieldsFunc_loop_Some:
  "\<exists>fs. FieldsFunc_loop IsSpace (Some t) s = (t @ takeToken s) # fs"
proof (induction s arbitrary: t rule: takeToken.induct)
  case 1
  show ?case by simp
next
  case (2 c cs)
  show ?case
  proof (cases "IsSpace (fst (DecodeRune (c # cs)))")
    case True
    then show ?thesis by simp
  next
    case False
    from "2.IH" [OF False, of "t @ take (snd (DecodeRune (c # cs))) (c # cs)"] False
    show ?thesis by simp
  qed
qed

lemma FieldsFunc_loop_None:
  "(skipSpaces s = [] \<longrightarrow> FieldsFunc_loop IsSpace None s = []) \<and>
   (skipSpaces s \<noteq> [] \<longrightarrow>
      (\<exists>fs. FieldsFunc_loop IsSpace None s = takeToken (skipSpaces s) # fs))"
proof (induction s rule: skipSpaces.induct)
  case 1
  show ?case by simp
next
  case (2 c cs)
  show ?case
  proof (cases "IsSpace (fst (DecodeRune (c # cs)))")
    case True
    with "2.IH" show ?thesis by simp
  next
    case False
    obtain fs where "FieldsFunc_loop IsSpace (Some (take (snd (DecodeRune (c # cs))) (c # cs)))
        (drop (snd (DecodeRune (c # cs))) (c # cs))
      = (take (snd (DecodeRune (c # cs))) (c # cs) @
         takeToken (drop (snd (DecodeRune (c # cs))) (c # cs))) # fs"
      using FieldsFunc_loop_Some by blast
    with False show ?thesis by simp
  qed
qed

lemma takeToken_Nil: "takeToken s = [] \<longleftrightarrow> s = [] \<or> IsSpace (fst (DecodeRune s))"
proof (cases s)
  case Nil
  then show ?thesis by simp
next
  case (Cons c cs)
  have "1 \<le> snd (DecodeRune (c # cs))" by (rule DecodeRune_width)
  then have "take (snd (DecodeRune (c # cs))) (c # cs) \<noteq> []" by auto
  with Cons show ?thesis by simp
qed

lemma skipSpaces_head: "skipSpaces s = [] \<or> \<not> IsSpace (fst (DecodeRune (skipSpaces s)))"
  by (induction s rule: skipSpaces.induct) auto

lemma firstToken_Nil: "firstToken s = [] \<longleftrightarrow> skipSpaces s = []"
  using skipSpaces_head [of s] by (auto simp: firstToken_def takeToken_Nil)

lemma Fields_firstToken:
  "(firstToken s = [] \<longrightarrow> Fields s = []) \<and>
   (firstToken s \<noteq> [] \<longrightarrow> (\<exists>fs. Fields s = firstToken s # fs))"
  unfolding Fields_def firstToken_Nil
  using FieldsFunc_loop_None [of s] by (simp add: firstToken_def)

lemma DecodeRune_ascii: "(of_char c :: nat) < 0x80 \<Longrightarrow> DecodeRune (c # cs) = (of_char c, 1)"
  by (simp add: DecodeRune.simps)

lemma asciiSpace_of_char:
  "asciiSpace c \<longleftrightarrow>
     (of_char c :: nat) = 9 \<or> (of_char c :: nat) = 10 \<or> (of_char c :: nat) = 11 \<or>
     (of_char c :: nat) = 12 \<or> (of_char c :: nat) = 13 \<or> (of_char c :: nat) = 32"
proof -
  have e: "c = d \<longleftrightarrow> (of_char c :: nat) = of_char d" for d
    by simp
  show ?thesis
    unfolding asciiSpace_def
    by (simp only: e [of "CHR 0x09"] e [of "CHR 0x0A"] e [of "CHR 0x0B"] e [of "CHR 0x0C"]
          e [of "CHR 0x0D"] e [of "CHR 0x20"]) simp
qed

lemma IsSpace_ascii:
  "(of_char c :: nat) < 0x80 \<Longrightarrow> IsSpace (of_char c) \<longleftrightarrow> asciiSpace c"
  by (auto simp: IsSpace_def asciiSpace_of_char)

lemma takeToken_plain:
  "list_all (\<lambda>c. (of_char c :: nat) < 0x80 \<and> \<not> asciiSpace c) t \<Longrightarrow> asciiSpace sp \<Longrightarrow>
     (of_char sp :: nat) < 0x80 \<Longrightarrow> takeToken (t @ sp # rest) = t"
  by (induction t) (simp_all add: DecodeRune_ascii IsSpace_ascii)

lemma asciiSpace_lt: "asciiSpace sp \<Longrightarrow> (of_char sp :: nat) < 0x80"
  by (auto simp: asciiSpace_def)

lemma takeToken_plain_end:
  "list_all (\<lambda>c. (of_char c :: nat) < 0x80 \<and> \<not> asciiSpace c) t \<Longrightarrow> takeToken t = t"
  by (induction t) (simp_all add: DecodeRune_ascii IsSpace_ascii)

lemma skipSpaces_plain:
  "plainToken t \<Longrightarrow> skipSpaces (t @ s) = t @ s"
  by (cases t) (simp_all add: plainToken_def DecodeRune_ascii IsSpace_ascii)

lemma firstToken_plain:
  assumes "plainToken t" "asciiSpace sp"
  shows "firstToken (t @ sp # rest) = t" and "firstToken t = t"
proof -
  show "firstToken (t @ sp # rest) = t"
    using assms skipSpaces_plain [OF assms(1), of "sp # rest"]
    by (simp add: firstToken_def plainToken_def takeToken_plain asciiSpace_lt)
  show "firstToken t = t"
    using assms skipSpaces_plain [OF assms(1), of "[]"]
    by (simp add: firstToken_def plainToken_def takeToken_plain_end)
qed

lemma lookup_allowedCommands:
  "lookup allowedCommands x \<longleftrightarrow> x \<in> {''PING'', ''VERSION'', ''VERSIONCOMMANDS'', ''INSTREAM''}"
  by (auto simp: lookup_def allowedCommands_def)

lemma strip_HasPrefix:
  "(if HasPrefix t ''z'' \<or> HasPrefix t ''n'' then drop 1 t else t) = stripVariant t"
  by (cases t) (auto simp: HasPrefix_def stripVariant_def)

lemma isCommandAllowed_eq:
  "isCommandAllowed cmd \<longleftrightarrow>
     stripVariant (firstToken cmd) \<in> {''PING'', ''VERSION'', ''VERSIONCOMMANDS'', ''INSTREAM''}"
proof (cases "firstToken cmd = []")
  case True
  then have "Fields cmd = []" using Fields_firstToken [of cmd] by simp
  with True show ?thesis
    by (simp add: isCommandAllowed_def stripVariant_def)
next
  case False
  then obtain fs where "Fields cmd = firstToken cmd # fs"
    using Fields_firstToken [of cmd] by blast
  then show ?thesis
    by (simp add: isCommandAllowed_def Let_def strip_HasPrefix lookup_allowedCommands)
qed

text \<open>
  Claim C5. \<open>isCommandAllowed\<close> holds exactly when the first white-space-separated
  token of the command, without one leading \<open>z\<close> or \<open>n\<close>, is one of PING, VERSION,
  VERSIONCOMMANDS and INSTREAM. It is false when there is no token (the empty string,
  or white space only), and what follows a token and a space does not change it.
\<close>

theorem isCommandAllowed_firstToken:
  "(isCommandAllowed cmd \<longleftrightarrow>
      stripVariant (firstToken cmd) \<in> {''PING'', ''VERSION'', ''VERSIONCOMMANDS'', ''INSTREAM''}) \<and>
   (firstToken cmd = [] \<longrightarrow> \<not> isCommandAllowed cmd) \<and>
   (plainToken t \<and> asciiSpace sp \<longrightarrow>
      firstToken (t @ sp # rest) = t \<and> isCommandAllowed (t @ sp # rest) = isCommandAllowed t)"
proof (intro conjI impI)
  show "isCommandAllowed cmd \<longleftrightarrow>
      stripVariant (firstToken cmd) \<in> {''PING'', ''VERSION'', ''VERSIONCOMMANDS'', ''INSTREAM''}"
    by (rule isCommandAllowed_eq)
next
  assume "firstToken cmd = []"
  then show "\<not> isCommandAllowed cmd"
    by (simp add: isCommandAllowed_eq stripVariant_def)
next
  assume a: "plainToken t \<and> asciiSpace sp"
  then show "firstToken (t @ sp # rest) = t"
    by (simp add: firstToken_plain)
next
  assume a: "plainToken t \<and> asciiSpace sp"
  then have "firstToken (t @ sp # rest) = firstToken t"
    using firstToken_plain(1) [of t sp rest] firstToken_plain(2) [of t sp] by simp
  then show "isCommandAllowed (t @ sp # rest) = isCommandAllowed t"
    by (simp only: isCommandAllowed_eq)
qed

lemma firstToken_examples:
  "firstToken ''nVERSION'' = ''nVERSION''"
  "firstToken ''SCAN /etc/passwd'' = ''SCAN''"
  "firstToken '''' = ''''"
  "firstToken [CHR 0x20, CHR 0x09, CHR 0xC2, CHR 0xA0] = ''''"
  by (simp_all add: firstToken_def DecodeRune.simps IsSpace_def Let_def)

theorem isCommandAllowed_firstToken_witness:
  "isCommandAllowed ''nVERSION'' \<and>
   \<not> isCommandAllowed ''SCAN /etc/passwd'' \<and>
   \<not> isCommandAllowed '''' \<and>
   \<not> isCommandAllowed [CHR 0x20, CHR 0x09, CHR 0xC2, CHR 0xA0] \<and>
   isCommandAllowed (''zPING'' @ CHR 0x20 # ''/etc/passwd'') \<and>
   firstToken (''zPING'' @ CHR 0x20 # ''/etc/passwd'') = ''zPING''"
proof -
  note main = isCommandAllowed_firstToken [THEN conjunct1]
  note none = isCommandAllowed_firstToken [THEN conjunct2, THEN conjunct1, THEN mp]
  note args = isCommandAllowed_firstToken [THEN conjunct2, THEN conjunct2, THEN mp]
  have p: "plainToken ''zPING'' \<and> asciiSpace (CHR 0x20)"
    by (simp add: plainToken_def asciiSpace_def)
  have z: "isCommandAllowed ''zPING''"
    using firstToken_plain(2) [of "''zPING''" "CHR 0x20"] p
    by (simp add: main stripVariant_def)
  have 1: "isCommandAllowed ''nVERSION''"
    by (simp add: main firstToken_examples stripVariant_def)
  have 2: "\<not> isCommandAllowed ''SCAN /etc/passwd''"
    by (simp add: main firstToken_examples stripVariant_def)
  have 3: "\<not> isCommandAllowed ''''"
    by (rule none) (simp add: firstToken_examples)
  have 4: "\<not> isCommandAllowed [CHR 0x20, CHR 0x09, CHR 0xC2, CHR 0xA0]"
    by (rule none) (simp add: firstToken_examples)
  from args [OF p, of "''/etc/passwd''"] z 1 2 3 4 show ?thesis
    by simp
qed

section \<open>Writers on a connection that takes every write\<close>

lemma healthy_flushed [simp]: "healthy (flushed b) = healthy b"
  by (simp add: healthy_def flushed_def)

lemma healthy_buf_update [simp]: "healthy (b\<lparr>buf := x\<rparr>) = healthy b"
  by (simp add: healthy_def)

lemma flushed_flushed [simp]: "flushed (flushed b) = flushed b"
  by (simp add: flushed_def)

lemma buf_flushed [simp]: "buf (flushed b) = []"
  by (simp add: flushed_def)

lemma sent_flushed [simp]: "sent (wr (flushed b)) = sent (wr b) @ buf b"
  by (simp add: flushed_def)

lemma flushed_append:
  "flushed ((flushed b)\<lparr>buf := p\<rparr>) = flushed (b\<lparr>buf := buf b @ p\<rparr>)"
  by (simp add: flushed_def)

lemma Flush_healthy: "healthy b \<Longrightarrow> Flush b = (None, flushed b)"
  by (cases "buf b = []") (simp_all add: Flush_def healthy_def flushed_def conn_Write_def)

lemma Write_healthy:
  "healthy b \<Longrightarrow>
     \<exists>b'. Write b p = (None, b') \<and> healthy b' \<and> flushed b' = flushed (b\<lparr>buf := buf b @ p\<rparr>)"
proof (induction "2 * length p + (if buf b = [] then 0 else 1)" arbitrary: b p rule: less_induct)
  case less
  note h = \<open>healthy b\<close>
  show ?case
  proof (cases "Available b < length p")
    case False
    with h show ?thesis
      by (simp add: Write.simps [of b p] healthy_def)
  next
    case True
    show ?thesis
    proof (cases "buf b = []")
      case e: True
      have c: "conn_Write (wr b) p = (length p, None, (wr b)\<lparr>sent := sent (wr b) @ p\<rparr>)"
        using h by (simp add: conn_Write_def healthy_def)
      have "Write b p = Write (b\<lparr>wr := (wr b)\<lparr>sent := sent (wr b) @ p\<rparr>, err := None\<rparr>) []"
        using True h e c by (simp add: Write.simps [of b p] healthy_def)
      also have "\<dots> = (None, b\<lparr>wr := (wr b)\<lparr>sent := sent (wr b) @ p\<rparr>, err := None\<rparr>)"
        using e by (simp add: Write.simps [of _ "[]"])
      finally show ?thesis
        using h e by (simp add: healthy_def flushed_def)
    next
      case ne: False
      let ?n = "Available b"
      let ?b1 = "flushed (b\<lparr>buf := buf b @ take ?n p\<rparr>)"
      have f: "Flush (b\<lparr>buf := buf b @ take ?n p\<rparr>) = (None, ?b1)"
        using h by (simp add: Flush_healthy)
      have w: "Write b p = Write ?b1 (drop ?n p)"
        using True h ne f by (simp add: Write.simps [of b p] healthy_def)
      have m: "2 * length (drop ?n p) + (if buf ?b1 = [] then 0 else 1)
                 < 2 * length p + (if buf b = [] then 0 else 1)"
        using ne by simp
      have h1: "healthy ?b1" using h by simp
      from less.hyps [OF m h1] obtain b' where
        b': "Write ?b1 (drop ?n p) = (None, b')" "healthy b'"
            "flushed b' = flushed (?b1\<lparr>buf := buf ?b1 @ drop ?n p\<rparr>)"
        by blast
      have "flushed (?b1\<lparr>buf := buf ?b1 @ drop ?n p\<rparr>) = flushed (b\<lparr>buf := buf b @ p\<rparr>)"
        by (simp add: flushed_def)
      with b' w show ?thesis by simp
    qed
  qed
qed

lemma WriteString_healthy:
  "healthy b \<Longrightarrow>
     \<exists>b'. WriteString b s = (None, b') \<and> healthy b' \<and>
          flushed b' = flushed (b\<lparr>buf := buf b @ s\<rparr>)"
proof (induction "2 * length s + (if buf b = [] then 0 else 1)" arbitrary: b s rule: less_induct)
  case less
  note h = \<open>healthy b\<close>
  show ?case
  proof (cases "Available b < length s")
    case False
    with h show ?thesis
      by (simp add: WriteString.simps [of b s] healthy_def)
  next
    case True
    let ?n = "Available b"
    let ?b1 = "flushed (b\<lparr>buf := buf b @ take ?n s\<rparr>)"
    have f: "Flush (b\<lparr>buf := buf b @ take ?n s\<rparr>) = (None, ?b1)"
      using h by (simp add: Flush_healthy)
    have w: "WriteString b s = WriteString ?b1 (drop ?n s)"
      using True h f by (simp add: WriteString.simps [of b s] healthy_def)
    have m: "2 * length (drop ?n s) + (if buf ?b1 = [] then 0 else 1)
               < 2 * length s + (if buf b = [] then 0 else 1)"
      using True by (auto simp: Available_def bufSize_def)
    have h1: "healthy ?b1" using h by simp
    from less.hyps [OF m h1] obtain b' where
      b': "WriteString ?b1 (drop ?n s) = (None, b')" "healthy b'"
          "flushed b' = flushed (?b1\<lparr>buf := buf ?b1 @ drop ?n s\<rparr>)"
      by blast
    have "flushed (?b1\<lparr>buf := buf ?b1 @ drop ?n s\<rparr>) = flushed (b\<lparr>buf := buf b @ s\<rparr>)"
      by (simp add: flushed_def)
    with b' w show ?thesis by simp
  qed
qed

lemma flushed_cong:
  "flushed x = flushed y \<Longrightarrow> flushed (x\<lparr>buf := buf x @ q\<rparr>) = flushed (y\<lparr>buf := buf y @ q\<rparr>)"
proof -
  assume a: "flushed x = flushed y"
  then have "wr (flushed x) = wr (flushed y)" "err (flushed x) = err (flushed y)"
    "writer.more (flushed x) = writer.more (flushed y)"
    by simp_all
  then have w: "(wr x)\<lparr>sent := sent (wr x) @ buf x\<rparr> = (wr y)\<lparr>sent := sent (wr y) @ buf y\<rparr>"
    and e: "err x = err y" and m: "writer.more x = writer.more y"
    by (simp_all add: flushed_def)
  from w have "((wr x)\<lparr>sent := sent (wr x) @ buf x\<rparr>)\<lparr>sent := (sent (wr x) @ buf x) @ q\<rparr>
             = ((wr y)\<lparr>sent := sent (wr y) @ buf y\<rparr>)\<lparr>sent := (sent (wr y) @ buf y) @ q\<rparr>"
    by (metis conn.select_convs(1) conn.surjective conn.update_convs(1))
  then have "(wr x)\<lparr>sent := sent (wr x) @ buf x @ q\<rparr> = (wr y)\<lparr>sent := sent (wr y) @ buf y @ q\<rparr>"
    by simp
  with e m show ?thesis
    by (simp add: flushed_def writer.equality)
qed

lemma Write_Flush_healthy:
  assumes "healthy b"
  shows "\<exists>b'. Write b p = (None, b') \<and> Flush b' = (None, flushed (b\<lparr>buf := buf b @ p\<rparr>))"
proof -
  from Write_healthy [OF assms, of p] obtain b' where
    "Write b p = (None, b')" "healthy b'" "flushed b' = flushed (b\<lparr>buf := buf b @ p\<rparr>)"
    by blast
  then show ?thesis by (auto simp: Flush_healthy)
qed

lemma WriteString_Flush_healthy:
  assumes "healthy b"
  shows "\<exists>b'. WriteString b s = (None, b') \<and>
              Flush b' = (None, flushed (b\<lparr>buf := buf b @ s\<rparr>))"
proof -
  from WriteString_healthy [OF assms, of s] obtain b' where
    "WriteString b s = (None, b')" "healthy b'" "flushed b' = flushed (b\<lparr>buf := buf b @ s\<rparr>)"
    by blast
  then show ?thesis by (auto simp: Flush_healthy)
qed

lemma Flush_ok_buf: "Flush b = (None, b') \<Longrightarrow> buf b' = []"
  by (auto simp: Flush_def split: if_splits prod.splits option.splits)

section \<open>Properties of the chunk relay\<close>

lemma of_char_lt: "(of_char c :: nat) < 256"
  by (cases c) (simp add: of_char_def)

lemma of_char_int_range: "0 \<le> (of_char x :: int) \<and> (of_char x :: int) < 256"
  using of_char_lt [of x] by (simp flip: of_nat_of_char [where 'a = int])

lemma take_bit_of_char: "take_bit 8 (of_char c :: int) = of_char c"
  using of_char_int_range [of c] by (simp add: take_bit_int_eq_self)

lemma or_bytes:
  fixes a b c d :: int
  assumes "take_bit 8 b = b" "take_bit 8 c = c" "take_bit 8 d = d"
  shows "push_bit 24 a OR push_bit 16 b OR push_bit 8 c OR d
           = a * 2 ^ 24 + b * 2 ^ 16 + c * 2 ^ 8 + d"
proof -
  have "concat_bit 8 d (concat_bit 8 c (concat_bit 8 b a))
          = push_bit 24 a OR push_bit 16 b OR push_bit 8 c OR d"
    using assms by (simp add: concat_bit_def push_bit_or push_bit_push_bit ac_simps)
  moreover have "concat_bit 8 d (concat_bit 8 c (concat_bit 8 b a))
          = a * 2 ^ 24 + b * 2 ^ 16 + c * 2 ^ 8 + d"
    using assms by (simp add: concat_bit_eq push_bit_add push_bit_eq_mult algebra_simps)
  ultimately show ?thesis by simp
qed

text \<open>
  The shifts and ors on 64-bit words compute the big-endian value of the four bytes: it is
  below \<open>2 ^ 32\<close>, so nothing wraps and the sign bit stays clear.
\<close>

lemma chunkSize_eq:
  "chunkSize [a, b, c, d] =
     of_char a * 2 ^ 24 + of_char b * 2 ^ 16 + of_char c * 2 ^ 8 + of_char d"
proof -
  let ?n = "(of_char a * 2 ^ 24 + of_char b * 2 ^ 16 + of_char c * 2 ^ 8 + of_char d) :: int"
  have w: "(push_bit 24 (of_char a) OR push_bit 16 (of_char b) OR
            push_bit 8 (of_char c) OR of_char d :: 64 word)
          = word_of_int (push_bit 24 (of_char a) OR push_bit 16 (of_char b) OR
            push_bit 8 (of_char c) OR of_char d)"
    by (simp add: of_int_or_eq of_int_push_bit of_int_of_char)
  have n: "(push_bit 24 (of_char a) OR push_bit 16 (of_char b) OR
            push_bit 8 (of_char c) OR of_char d :: int) = ?n"
    by (rule or_bytes) (rule take_bit_of_char)+
  have b: "0 \<le> ?n" "?n < 2 ^ 32"
    using of_char_int_range [of a] of_char_int_range [of b] of_char_int_range [of c]
      of_char_int_range [of d]
    by simp_all
  have s: "sint (word_of_int k :: 64 word) = k" if "0 \<le> k" "k < 2 ^ 32" for k
    using that by (simp add: sint_sbintrunc' signed_take_bit_int_eq_self)
  have "chunkSize [a, b, c, d] = sint (word_of_int ?n :: 64 word)"
  proof -
    have e: "[a, b, c, d] ! 0 = a" "[a, b, c, d] ! 1 = b" "[a, b, c, d] ! 2 = c"
      "[a, b, c, d] ! 3 = d"
      by simp_all
    show ?thesis
      unfolding chunkSize_def by (simp only: e w n)
  qed
  then show ?thesis
    using s [OF b] by simp
qed

lemma chunkSize_range: "0 \<le> chunkSize [a, b, c, d] \<and> chunkSize [a, b, c, d] < 2 ^ 32"
  using of_char_int_range [of a] of_char_int_range [of b] of_char_int_range [of c]
    of_char_int_range [of d]
  by (simp add: chunkSize_eq)

lemma length_be32 [simp]: "length (be32 n) = 4"
  by (simp add: be32_def)

lemma be32_sum:
  fixes n :: nat
  assumes "n < 2 ^ 32"
  shows "(n div 2 ^ 24 mod 256) * 2 ^ 24 + (n div 2 ^ 16 mod 256) * 2 ^ 16 +
         (n div 2 ^ 8 mod 256) * 2 ^ 8 + n mod 256 = n"
proof -
  define q1 where "q1 = n div 256"
  define q2 where "q2 = q1 div 256"
  define q3 where "q3 = q2 div 256"
  have d1: "n div 2 ^ 8 = q1" by (simp add: q1_def)
  have d2: "n div 2 ^ 16 = q2"
    unfolding q2_def q1_def by (simp add: div_mult2_eq [symmetric])
  have d3: "n div 2 ^ 24 = q3"
    unfolding q3_def q2_def q1_def by (simp add: div_mult2_eq [symmetric])
  have "q3 < 256" using assms unfolding d3 [symmetric] by (simp add: less_mult_imp_div_less)
  then have m3: "q3 mod 256 = q3" by simp
  have e1: "n = q1 * 256 + n mod 256" by (simp add: q1_def)
  have e2: "q1 = q2 * 256 + q1 mod 256" by (simp add: q2_def)
  have e3: "q2 = q3 * 256 + q2 mod 256" by (simp add: q3_def)
  have "q3 * 2 ^ 24 + (q2 mod 256) * 2 ^ 16 + (q1 mod 256) * 2 ^ 8 + n mod 256 = n"
    using e1 e2 e3 by simp
  then show ?thesis by (simp only: d1 d2 d3 m3)
qed

lemma chunkSize_be32: "n < 2 ^ 32 \<Longrightarrow> chunkSize (be32 n) = int n"
proof -
  assume a: "n < 2 ^ 32"
  have c: "(of_char (char_of k) :: int) = int (k mod 256)" for k :: nat
    by (simp add: of_char_of flip: of_nat_of_char [where 'a = int])
  have "int ((n div 2 ^ 24 mod 256) * 2 ^ 24 + (n div 2 ^ 16 mod 256) * 2 ^ 16 +
        (n div 2 ^ 8 mod 256) * 2 ^ 8 + n mod 256) = int n"
    by (simp only: be32_sum [OF a])
  then have "int (n div 2 ^ 24 mod 256) * 2 ^ 24 + int (n div 2 ^ 16 mod 256) * 2 ^ 16 +
        int (n div 2 ^ 8 mod 256) * 2 ^ 8 + int (n mod 256) = int n"
    by (simp only: of_nat_add of_nat_mult of_nat_power of_nat_numeral)
  then show ?thesis
    unfolding be32_def chunkSize_eq c .
qed

lemma ReadFull_prefix:
  "pending r = p @ rest \<Longrightarrow> ReadFull r (length p) = ((p, None), r\<lparr>pending := rest\<rparr>)"
  by (simp add: ReadFull_def)

lemma relayChunk_healthy:
  assumes h: "healthy b" and r: "pending r = p @ rest"
  shows "\<exists>b'. relayChunk b r (int (length p)) = (None, b', r\<lparr>pending := rest\<rparr>) \<and>
              healthy b' \<and> flushed b' = flushed (b\<lparr>buf := buf b @ p\<rparr>)"
proof -
  from Write_healthy [OF h, of p] obtain b' where
    w: "Write b p = (None, b')" and b': "healthy b'" "flushed b' = flushed (b\<lparr>buf := buf b @ p\<rparr>)"
    by blast
  show ?thesis
  proof (cases "int (length p) \<le> 32 * 1024")
    case True
    then have "relayChunk b r (int (length p)) = (None, b', r\<lparr>pending := rest\<rparr>)"
      using w ReadFull_prefix [OF r] by (simp add: relayChunk_def)
    with b' show ?thesis by simp
  next
    case False
    have "CopyN b r (length p) = (None, b', r\<lparr>pending := rest\<rparr>)"
      using w r by (simp add: CopyN_def)
    with False have "relayChunk b r (int (length p)) = (None, b', r\<lparr>pending := rest\<rparr>)"
      by (simp add: relayChunk_def)
    with b' show ?thesis by simp
  qed
qed

lemma handleInstream_loop_wellFormed:
  "healthy b \<Longrightarrow> wellFormed payloads \<Longrightarrow> pending r = chunkStream payloads @ rest \<Longrightarrow>
     handleInstream_loop chunks b r =
       (None, flushed (b\<lparr>buf := buf b @ chunkStream payloads\<rparr>), r\<lparr>pending := rest\<rparr>)"
proof (induction payloads arbitrary: chunks b r)
  case Nil
  then have p: "pending r = be32 0 @ rest" by (simp add: chunkStream_def)
  have rf: "ReadFull r 4 = ((be32 0, None), r\<lparr>pending := rest\<rparr>)"
    using ReadFull_prefix [OF p] by simp
  from Write_Flush_healthy [OF Nil.prems(1), of "be32 0"] obtain b1 where
    w: "Write b (be32 0) = (None, b1)"
    and f: "Flush b1 = (None, flushed (b\<lparr>buf := buf b @ be32 0\<rparr>))"
    by blast
  have z: "chunkSize (be32 0) = 0" using chunkSize_be32 [of 0] by simp
  show ?case
    by (simp add: handleInstream_loop.simps [of chunks b r] rf w z f chunkStream_def)
next
  case (Cons p ps)
  let ?n = "length p"
  from Cons.prems(2) have n: "0 < ?n" "?n < 2 ^ 32" and wf: "wellFormed ps"
    by (simp_all add: wellFormed_def)
  have pr: "pending r = be32 ?n @ (p @ chunkStream ps @ rest)"
    using Cons.prems(3) by (simp add: chunkStream_def encodeChunk_def)
  let ?r1 = "r\<lparr>pending := p @ chunkStream ps @ rest\<rparr>"
  let ?r2 = "r\<lparr>pending := chunkStream ps @ rest\<rparr>"
  have rf: "ReadFull r 4 = ((be32 ?n, None), ?r1)"
    using ReadFull_prefix [OF pr] by simp
  from Write_healthy [OF Cons.prems(1), of "be32 ?n"] obtain b1 where
    w: "Write b (be32 ?n) = (None, b1)" and h1: "healthy b1"
    and f1: "flushed b1 = flushed (b\<lparr>buf := buf b @ be32 ?n\<rparr>)"
    by blast
  have cs: "chunkSize (be32 ?n) = int ?n" by (rule chunkSize_be32 [OF n(2)])
  have nz: "chunkSize (be32 ?n) \<noteq> 0" using n(1) cs by simp
  have "pending ?r1 = p @ (chunkStream ps @ rest)" by simp
  from relayChunk_healthy [OF h1 this] obtain b2 where
    rc: "relayChunk b1 ?r1 (int ?n) = (None, b2, ?r2)" and h2: "healthy b2"
    and f2: "flushed b2 = flushed (b1\<lparr>buf := buf b1 @ p\<rparr>)"
    by auto
  have f12: "flushed b2 = flushed (b\<lparr>buf := buf b @ be32 ?n @ p\<rparr>)"
    using flushed_cong [OF f1, of p] f2 by simp
  have target: "flushed (b\<lparr>buf := buf b @ chunkStream (p # ps)\<rparr>)
      = flushed (b2\<lparr>buf := buf b2 @ chunkStream ps\<rparr>)"
    using flushed_cong [OF f12, of "chunkStream ps"]
    by (simp add: chunkStream_def encodeChunk_def)
  have pr2: "pending ?r2 = chunkStream ps @ rest" by simp
  have upd: "?r2\<lparr>pending := rest\<rparr> = r\<lparr>pending := rest\<rparr>" by simp
  show ?case
  proof (cases "(chunks + 1) mod 10 = 0")
    case True
    have fl: "Flush b2 = (None, flushed b2)" by (rule Flush_healthy [OF h2])
    have hf: "healthy (flushed b2)" using h2 by simp
    have "handleInstream_loop chunks b r = handleInstream_loop (chunks + 1) (flushed b2) ?r2"
      using True n(1) by (simp add: handleInstream_loop.simps [of chunks b r] rf w cs rc fl)
    also have "\<dots> = (None, flushed ((flushed b2)\<lparr>buf := buf (flushed b2) @ chunkStream ps\<rparr>),
                       ?r2\<lparr>pending := rest\<rparr>)"
      by (rule Cons.IH [OF hf wf pr2])
    finally show ?thesis
      using target by (simp add: flushed_append upd)
  next
    case False
    have "handleInstream_loop chunks b r = handleInstream_loop (chunks + 1) b2 ?r2"
      using False n(1) by (simp add: handleInstream_loop.simps [of chunks b r] rf w cs rc)
    also have "\<dots> = (None, flushed (b2\<lparr>buf := buf b2 @ chunkStream ps\<rparr>), ?r2\<lparr>pending := rest\<rparr>)"
      by (rule Cons.IH [OF h2 wf pr2])
    finally show ?thesis
      using target by (simp add: upd)
  qed
qed

lemma healthy_mock [simp]:
  "healthy (backendBuf (NewClamdProxy c mockConn))"
  "healthy (clientBuf (NewClamdProxy mockConn c))"
  by (simp_all add: healthy_def NewClamdProxy_def mockConn_def)

text \<open>
  Claim C6. On a backend that takes every write, for every well-formed chunk stream
  (payloads of 1 to \<open>2 ^ 32 - 1\<close> bytes, each after its big-endian length, then the
  zero length; no payload at all is the stream of the terminator only) the relay returns
  success, the backend has been sent exactly the bytes of the stream, in order, after
  what its buffer held, nothing is left in the buffer, and the reader stands right after
  the terminator. The payload lengths are not bounded by 32 KiB, so the statement covers
  the pooled-buffer path and the \<^verbatim>\<open>io.CopyN\<close> path.
\<close>

theorem handleInstream_wellFormed:
  "healthy (backendBuf p) \<and> wellFormed payloads \<and> pending r = chunkStream payloads @ rest \<longrightarrow>
     handleInstream p r =
       (None,
        p\<lparr>backendBuf := flushed ((backendBuf p)\<lparr>buf := buf (backendBuf p) @ chunkStream payloads\<rparr>)\<rparr>,
        r\<lparr>pending := rest\<rparr>) \<and>
     sent (wr (backendBuf (fst (snd (handleInstream p r))))) =
       sent (wr (backendBuf p)) @ buf (backendBuf p) @ chunkStream payloads \<and>
     buf (backendBuf (fst (snd (handleInstream p r)))) = []"
proof
  assume a: "healthy (backendBuf p) \<and> wellFormed payloads \<and>
    pending r = chunkStream payloads @ rest"
  then have "handleInstream_loop 0 (backendBuf p) r =
      (None, flushed ((backendBuf p)\<lparr>buf := buf (backendBuf p) @ chunkStream payloads\<rparr>),
       r\<lparr>pending := rest\<rparr>)"
    by (simp add: handleInstream_loop_wellFormed)
  then have e: "handleInstream p r =
       (None,
        p\<lparr>backendBuf := flushed ((backendBuf p)\<lparr>buf := buf (backendBuf p) @ chunkStream payloads\<rparr>)\<rparr>,
        r\<lparr>pending := rest\<rparr>)"
    by (simp add: handleInstream_def)
  show "handleInstream p r =
       (None,
        p\<lparr>backendBuf := flushed ((backendBuf p)\<lparr>buf := buf (backendBuf p) @ chunkStream payloads\<rparr>)\<rparr>,
        r\<lparr>pending := rest\<rparr>) \<and>
     sent (wr (backendBuf (fst (snd (handleInstream p r))))) =
       sent (wr (backendBuf p)) @ buf (backendBuf p) @ chunkStream payloads \<and>
     buf (backendBuf (fst (snd (handleInstream p r)))) = []"
    unfolding e by simp
qed

lemma be32_small:
  "be32 0 = [CHR 0x00, CHR 0x00, CHR 0x00, CHR 0x00]"
  "be32 2 = [CHR 0x00, CHR 0x00, CHR 0x00, CHR 0x02]"
  by (simp_all add: be32_def char_of_def bit_iff_odd)

lemma chunkStream_small:
  "chunkStream [] = [CHR 0x00, CHR 0x00, CHR 0x00, CHR 0x00]"
  "chunkStream [''ab''] =
     [CHR 0x00, CHR 0x00, CHR 0x00, CHR 0x02, CHR ''a'', CHR ''b'',
      CHR 0x00, CHR 0x00, CHR 0x00, CHR 0x00]"
proof -
  show "chunkStream [] = [CHR 0x00, CHR 0x00, CHR 0x00, CHR 0x00]"
    by (simp add: chunkStream_def be32_small)
  have l: "length ''ab'' = 2" by simp
  have "encodeChunk ''ab'' = [CHR 0x00, CHR 0x00, CHR 0x00, CHR 0x02, CHR ''a'', CHR ''b'']"
    unfolding encodeChunk_def l be32_small by simp
  then show "chunkStream [''ab''] =
     [CHR 0x00, CHR 0x00, CHR 0x00, CHR 0x02, CHR ''a'', CHR ''b'',
      CHR 0x00, CHR 0x00, CHR 0x00, CHR 0x00]"
    by (simp add: chunkStream_def be32_small)
qed

theorem handleInstream_wellFormed_witness:
  "handleInstream (NewClamdProxy mockConn mockConn)
     \<lparr>pending = [CHR 0x00, CHR 0x00, CHR 0x00, CHR 0x00], eof_err = EOF\<rparr>
   = (None,
      NewClamdProxy mockConn (mockConn\<lparr>sent := [CHR 0x00, CHR 0x00, CHR 0x00, CHR 0x00]\<rparr>),
      \<lparr>pending = [], eof_err = EOF\<rparr>) \<and>
   handleInstream (NewClamdProxy mockConn mockConn)
     \<lparr>pending = [CHR 0x00, CHR 0x00, CHR 0x00, CHR 0x02, CHR ''a'', CHR ''b'',
                 CHR 0x00, CHR 0x00, CHR 0x00, CHR 0x00] @ ''PING'', eof_err = EOF\<rparr>
   = (None,
      NewClamdProxy mockConn
        (mockConn\<lparr>sent := [CHR 0x00, CHR 0x00, CHR 0x00, CHR 0x02, CHR ''a'', CHR ''b'',
                           CHR 0x00, CHR 0x00, CHR 0x00, CHR 0x00]\<rparr>),
      \<lparr>pending = ''PING'', eof_err = EOF\<rparr>) \<and>
   handleInstream (NewClamdProxy mockConn mockConn)
     \<lparr>pending = chunkStream [replicate 40000 (CHR ''A'')] @ [], eof_err = EOF\<rparr>
   = (None,
      NewClamdProxy mockConn (mockConn\<lparr>sent := chunkStream [replicate 40000 (CHR ''A'')]\<rparr>),
      \<lparr>pending = [], eof_err = EOF\<rparr>)"
proof -
  let ?p = "NewClamdProxy mockConn mockConn"
  have fl: "?p\<lparr>backendBuf := flushed ((backendBuf ?p)\<lparr>buf := buf (backendBuf ?p) @ s\<rparr>)\<rparr>
      = NewClamdProxy mockConn (mockConn\<lparr>sent := s\<rparr>)" for s
    by (simp add: NewClamdProxy_def mockConn_def flushed_def)
  have h0: "healthy (backendBuf ?p) \<and> wellFormed [] \<and>
      pending \<lparr>pending = [CHR 0x00, CHR 0x00, CHR 0x00, CHR 0x00], eof_err = EOF\<rparr>
        = chunkStream [] @ []"
    by (simp add: wellFormed_def chunkStream_small)
  have h1: "healthy (backendBuf ?p) \<and> wellFormed [''ab''] \<and>
      pending \<lparr>pending = [CHR 0x00, CHR 0x00, CHR 0x00, CHR 0x02, CHR ''a'', CHR ''b'',
                 CHR 0x00, CHR 0x00, CHR 0x00, CHR 0x00] @ ''PING'', eof_err = EOF\<rparr>
        = chunkStream [''ab''] @ ''PING''"
    by (simp add: wellFormed_def chunkStream_small)
  have h2: "healthy (backendBuf ?p) \<and> wellFormed [replicate 40000 (CHR ''A'')] \<and>
      pending \<lparr>pending = chunkStream [replicate 40000 (CHR ''A'')] @ [], eof_err = EOF\<rparr>
        = chunkStream [replicate 40000 (CHR ''A'')] @ []"
    by (simp add: wellFormed_def)
  from handleInstream_wellFormed [THEN mp, OF h0, THEN conjunct1]
       handleInstream_wellFormed [THEN mp, OF h1, THEN conjunct1]
       handleInstream_wellFormed [THEN mp, OF h2, THEN conjunct1]
  show ?thesis
    by (simp add: fl chunkStream_small)
qed

lemma handleInstream_loop_ok_buf:
  "handleInstream_loop chunks b r = (None, b', r') \<Longrightarrow> buf b' = []"
proof (induction "length (pending r)" arbitrary: chunks b r rule: less_induct)
  case less
  note step = less.prems [unfolded handleInstream_loop.simps [of chunks b r]]
  show ?case
  proof (cases "ReadFull r 4")
    case (Pair x r1)
    obtain sizeBytes e1 where x: "x = (sizeBytes, e1)" by (cases x)
    note rf = Pair [unfolded x]
    show ?thesis
    proof (cases e1)
      case (Some a)
      with step rf show ?thesis by simp
    next
      case None
      note rf = rf [unfolded None]
      have l1: "length (pending r1) + 4 = length (pending r)"
        by (rule ReadFull_ok_pending [OF rf])
      obtain e2 b1 where w: "Write b sizeBytes = (e2, b1)" by (cases "Write b sizeBytes")
      show ?thesis
      proof (cases e2)
        case (Some a)
        with step rf w show ?thesis by simp
      next
        case None
        note w = w [unfolded None]
        show ?thesis
        proof (cases "chunkSize sizeBytes = 0")
          case True
          obtain e3 b2 where f: "Flush b1 = (e3, b2)" by (cases "Flush b1")
          show ?thesis
          proof (cases e3)
            case (Some a)
            with step rf w True f show ?thesis by simp
          next
            case None
            with step rf w True f have "b' = b2" by simp
            with f None show ?thesis by (simp add: Flush_ok_buf)
          qed
        next
          case False
          obtain e3 b2 r2 where rc: "relayChunk b1 r1 (chunkSize sizeBytes) = (e3, b2, r2)"
            by (cases "relayChunk b1 r1 (chunkSize sizeBytes)")
          have "length (pending r2) \<le> length (pending r1)"
            by (rule relayChunk_pending [OF rc])
          then have lt: "length (pending r2) < length (pending r)" using l1 by simp
          have ih: "buf b' = []" if "handleInstream_loop k c r2 = (None, b', r')" for k c
            using less.hyps [OF lt that] .
          show ?thesis
          proof (cases e3)
            case (Some a)
            with step rf w rc False show ?thesis by simp
          next
            case None
            note rc = rc [unfolded None]
            show ?thesis
            proof (cases "(chunks + 1) mod 10 = 0")
              case m: False
              with step rf w rc False have "handleInstream_loop (chunks + 1) b2 r2 = (None, b', r')"
                by simp
              then show ?thesis by (rule ih)
            next
              case m: True
              obtain e4 b3 where f: "Flush b2 = (e4, b3)" by (cases "Flush b2")
              show ?thesis
              proof (cases e4)
                case (Some a)
                with step rf w rc False m f show ?thesis by simp
              next
                case None
                with step rf w rc False m f
                have "handleInstream_loop (chunks + 1) b3 r2 = (None, b', r')"
                  by simp
                then show ?thesis by (rule ih)
              qed
            qed
          qed
        qed
      qed
    qed
  qed
qed

text \<open>
  Claim C2, as the code has it. The final flush stands after the loop, which is left by
  \<^verbatim>\<open>break\<close> only when the zero length has been read; every failure is a \<^verbatim>\<open>return\<close>
  from inside the loop, with no flush. So: whenever the relay returns success, the
  buffer of the backend writer is empty. When a length prefix cannot be read, in any turn
  of the loop, the relay returns the wrapped error and the writer as it was; when the
  payload of a chunk of at most 32 KiB cannot be read, it returns the wrapped error and
  the writer as the write of the length prefix left it.
\<close>

theorem handleInstream_flush_on_success:
  "(handleInstream p r = (None, p', r') \<longrightarrow> buf (backendBuf p') = []) \<and>
   (ReadFull r 4 = ((bs, Some e), r1) \<longrightarrow>
      handleInstream_loop chunks b r = (Some (Wrapf ''failed to read chunk size'' e), b, r1)) \<and>
   (ReadFull r 4 = ((bs, None), r1) \<and> Write b bs = (None, b1) \<and>
    chunkSize bs \<noteq> 0 \<and> chunkSize bs \<le> 32 * 1024 \<and>
    ReadFull r1 (nat (chunkSize bs)) = ((chunk, Some e), r2) \<longrightarrow>
      handleInstream_loop chunks b r = (Some (Wrapf ''failed to read chunk data'' e), b1, r2))"
proof (intro conjI impI)
  assume "handleInstream p r = (None, p', r')"
  then obtain b' where "handleInstream_loop 0 (backendBuf p) r = (None, b', r')"
    and "p' = p\<lparr>backendBuf := b'\<rparr>"
    by (auto simp: handleInstream_def split: prod.splits)
  then show "buf (backendBuf p') = []"
    using handleInstream_loop_ok_buf by simp
next
  assume "ReadFull r 4 = ((bs, Some e), r1)"
  then show "handleInstream_loop chunks b r = (Some (Wrapf ''failed to read chunk size'' e), b, r1)"
    by (simp add: handleInstream_loop.simps [of chunks b r])
next
  assume "ReadFull r 4 = ((bs, None), r1) \<and> Write b bs = (None, b1) \<and>
    chunkSize bs \<noteq> 0 \<and> chunkSize bs \<le> 32 * 1024 \<and>
    ReadFull r1 (nat (chunkSize bs)) = ((chunk, Some e), r2)"
  then show "handleInstream_loop chunks b r =
      (Some (Wrapf ''failed to read chunk data'' e), b1, r2)"
    by (simp add: handleInstream_loop.simps [of chunks b r] relayChunk_def)
qed

theorem handleInstream_flush_on_success_witness:
  "handleInstream (NewClamdProxy mockConn mockConn)
     \<lparr>pending = [CHR 0x00, CHR 0x00, CHR 0x00, CHR 0x00], eof_err = EOF\<rparr>
   = (None,
      NewClamdProxy mockConn (mockConn\<lparr>sent := [CHR 0x00, CHR 0x00, CHR 0x00, CHR 0x00]\<rparr>),
      \<lparr>pending = [], eof_err = EOF\<rparr>) \<and>
   buf (backendBuf
     (NewClamdProxy mockConn (mockConn\<lparr>sent := [CHR 0x00, CHR 0x00, CHR 0x00, CHR 0x00]\<rparr>))) = [] \<and>
   handleInstream_loop 7 \<lparr>wr = mockConn, buf = ''abc'', err = None\<rparr>
     \<lparr>pending = [CHR 0x00, CHR 0x00], eof_err = EOF\<rparr>
   = (Some (Wrapf ''failed to read chunk size'' ErrUnexpectedEOF),
      \<lparr>wr = mockConn, buf = ''abc'', err = None\<rparr>, \<lparr>pending = [], eof_err = EOF\<rparr>) \<and>
   handleInstream_loop 0 \<lparr>wr = mockConn, buf = [], err = None\<rparr>
     \<lparr>pending = [CHR 0x00, CHR 0x00, CHR 0x00, CHR 0x05, CHR ''a'', CHR ''b''], eof_err = EOF\<rparr>
   = (Some (Wrapf ''failed to read chunk data'' ErrUnexpectedEOF),
      \<lparr>wr = mockConn, buf = [CHR 0x00, CHR 0x00, CHR 0x00, CHR 0x05], err = None\<rparr>,
      \<lparr>pending = [], eof_err = EOF\<rparr>)"
proof -
  let ?p = "NewClamdProxy mockConn mockConn"
  let ?r = "\<lparr>pending = [CHR 0x00, CHR 0x00, CHR 0x00, CHR 0x00], eof_err = EOF\<rparr>"
  have pr: "pending ?r = chunkStream [] @ []"
    by (simp add: chunkStream_small)
  have wf: "wellFormed []" by (simp add: wellFormed_def)
  have hb: "healthy (backendBuf ?p)" by simp
  have "handleInstream_loop 0 (backendBuf ?p) ?r =
      (None, flushed ((backendBuf ?p)\<lparr>buf := buf (backendBuf ?p) @ chunkStream []\<rparr>),
       ?r\<lparr>pending := []\<rparr>)"
    by (rule handleInstream_loop_wellFormed [OF hb wf pr])
  then have ok: "handleInstream ?p ?r
     = (None,
        NewClamdProxy mockConn (mockConn\<lparr>sent := [CHR 0x00, CHR 0x00, CHR 0x00, CHR 0x00]\<rparr>),
        \<lparr>pending = [], eof_err = EOF\<rparr>)"
    by (simp add: handleInstream_def wellFormed_def chunkStream_small NewClamdProxy_def
        mockConn_def flushed_def)
  have rf: "ReadFull \<lparr>pending = [CHR 0x00, CHR 0x00], eof_err = EOF\<rparr> 4
      = (([CHR 0x00, CHR 0x00], Some ErrUnexpectedEOF), \<lparr>pending = [], eof_err = EOF\<rparr>)"
    by (simp add: ReadFull_def)
  have h3: "ReadFull \<lparr>pending = [CHR 0x00, CHR 0x00, CHR 0x00, CHR 0x05, CHR ''a'', CHR ''b''],
                      eof_err = EOF\<rparr> 4
        = (([CHR 0x00, CHR 0x00, CHR 0x00, CHR 0x05], None), \<lparr>pending = ''ab'', eof_err = EOF\<rparr>) \<and>
      Write \<lparr>wr = mockConn, buf = [], err = None\<rparr> [CHR 0x00, CHR 0x00, CHR 0x00, CHR 0x05]
        = (None, \<lparr>wr = mockConn, buf = [CHR 0x00, CHR 0x00, CHR 0x00, CHR 0x05], err = None\<rparr>) \<and>
      chunkSize [CHR 0x00, CHR 0x00, CHR 0x00, CHR 0x05] \<noteq> 0 \<and>
      chunkSize [CHR 0x00, CHR 0x00, CHR 0x00, CHR 0x05] \<le> 32 * 1024 \<and>
      ReadFull \<lparr>pending = ''ab'', eof_err = EOF\<rparr>
          (nat (chunkSize [CHR 0x00, CHR 0x00, CHR 0x00, CHR 0x05]))
        = ((''ab'', Some ErrUnexpectedEOF), \<lparr>pending = [], eof_err = EOF\<rparr>)"
    by (simp add: ReadFull_def Write.simps Available_def bufSize_def chunkSize_eq)
  from handleInstream_flush_on_success [THEN conjunct1, THEN mp, OF ok]
       handleInstream_flush_on_success [THEN conjunct2, THEN conjunct1, THEN mp, OF rf,
         of 7 "\<lparr>wr = mockConn, buf = ''abc'', err = None\<rparr>"]
       handleInstream_flush_on_success [THEN conjunct2, THEN conjunct2, THEN mp, OF h3, of 0]
       ok
  show ?thesis by simp
qed

text \<open>
  Claim C2 as stated fails: the client announces a chunk of five bytes and disconnects
  after two. The four length bytes were written to the buffer; the relay returns the
  error, and they are still in the buffer, never sent.
\<close>

theorem handleInstream_failure_unflushed:
  "handleInstream (NewClamdProxy mockConn mockConn)
     \<lparr>pending = [CHR 0x00, CHR 0x00, CHR 0x00, CHR 0x05, CHR ''a'', CHR ''b''], eof_err = EOF\<rparr>
   = (Some (Wrapf ''failed to read chunk data'' ErrUnexpectedEOF),
      \<lparr>backendBuf = \<lparr>wr = mockConn, buf = [CHR 0x00, CHR 0x00, CHR 0x00, CHR 0x05], err = None\<rparr>,
       clientBuf = \<lparr>wr = mockConn, buf = [], err = None\<rparr>\<rparr>,
      \<lparr>pending = [], eof_err = EOF\<rparr>) \<and>
   sent mockConn = []"
proof -
  have rf: "ReadFull \<lparr>pending = [CHR 0x00, CHR 0x00, CHR 0x00, CHR 0x05, CHR ''a'', CHR ''b''],
                      eof_err = EOF\<rparr> 4
      = (([CHR 0x00, CHR 0x00, CHR 0x00, CHR 0x05], None), \<lparr>pending = ''ab'', eof_err = EOF\<rparr>)"
    by (simp add: ReadFull_def)
  have w: "Write \<lparr>wr = mockConn, buf = [], err = None\<rparr> [CHR 0x00, CHR 0x00, CHR 0x00, CHR 0x05]
      = (None, \<lparr>wr = mockConn, buf = [CHR 0x00, CHR 0x00, CHR 0x00, CHR 0x05], err = None\<rparr>)"
    by (simp add: Write.simps Available_def bufSize_def)
  have cs: "chunkSize [CHR 0x00, CHR 0x00, CHR 0x00, CHR 0x05] = 5"
    by (simp add: chunkSize_eq)
  have rc: "relayChunk \<lparr>wr = mockConn, buf = [CHR 0x00, CHR 0x00, CHR 0x00, CHR 0x05], err = None\<rparr>
              \<lparr>pending = ''ab'', eof_err = EOF\<rparr> 5
      = (Some (Wrapf ''failed to read chunk data'' ErrUnexpectedEOF),
         \<lparr>wr = mockConn, buf = [CHR 0x00, CHR 0x00, CHR 0x00, CHR 0x05], err = None\<rparr>,
         \<lparr>pending = [], eof_err = EOF\<rparr>)"
    by (simp add: relayChunk_def ReadFull_def)
  have "sent mockConn = []" by (simp add: mockConn_def)
  then show ?thesis
    by (simp add: handleInstream_def NewClamdProxy_def handleInstream_loop.simps rf w cs rc)
qed

section \<open>Properties of the client to backend direction\<close>

lemma step_read_error:
  "readCommand r = ((cmd, delim, Some e), r1) \<Longrightarrow>
     handleClientToBackend p r =
       (ReadCommandFailed e,
        p\<lparr>backendBuf := (backendBuf p)\<lparr>wr := snd (conn_Close (wr (backendBuf p)))\<rparr>\<rparr>, r1)"
  by (simp add: handleClientToBackend.simps [of p r] split: prod.splits)

lemma closed_conn_Close: "closed (snd (conn_Close c))"
  by (simp add: conn_Close_def)

lemma step_rejected:
  assumes "readCommand r = ((cmd, delim, None), r1)" "\<not> isCommandAllowed cmd"
    "healthy (clientBuf p)"
  shows "handleClientToBackend p r =
     handleClientToBackend
       (p\<lparr>clientBuf := flushed ((clientBuf p)\<lparr>buf := buf (clientBuf p) @ response\<rparr>)\<rparr>) r1"
proof -
  from WriteString_Flush_healthy [OF assms(3), of response] obtain c1 where
    "WriteString (clientBuf p) response = (None, c1)"
    "Flush c1 = (None, flushed ((clientBuf p)\<lparr>buf := buf (clientBuf p) @ response\<rparr>))"
    by blast
  with assms(1,2) show ?thesis
    by (simp add: handleClientToBackend.simps [of p r])
qed

lemma step_allowed:
  assumes "readCommand r = ((cmd, delim, None), r1)" "isCommandAllowed cmd"
    "healthy (backendBuf p)"
  shows "handleClientToBackend p r =
     (if isInstreamCommand cmd
      then (case handleInstream
                   (p\<lparr>backendBuf :=
                        flushed ((backendBuf p)\<lparr>buf := buf (backendBuf p) @ cmd @ [delim]\<rparr>)\<rparr>) r1 of
              (Some e, p', r2) \<Rightarrow> (InstreamFailed e, p', r2)
            | (None, p', r2) \<Rightarrow> handleClientToBackend p' r2)
      else handleClientToBackend
             (p\<lparr>backendBuf :=
                  flushed ((backendBuf p)\<lparr>buf := buf (backendBuf p) @ cmd @ [delim]\<rparr>)\<rparr>) r1)"
proof -
  from Write_Flush_healthy [OF assms(3), of "cmd @ [delim]"] obtain b1 where
    "Write (backendBuf p) (cmd @ [delim]) = (None, b1)"
    "Flush b1 = (None, flushed ((backendBuf p)\<lparr>buf := buf (backendBuf p) @ cmd @ [delim]\<rparr>))"
    by blast
  with assms(1,2) show ?thesis
    by (simp add: handleClientToBackend.simps [of p r])
qed

text \<open>
  A command that is not allowed, with \<^verbatim>\<open>Start\<close> leaving the client writer alone: on a
  writer that takes every write the client is sent what the buffer held and then the
  rejection text, and the loop goes on. The session below rejects \<open>RELOAD\<close> and then
  forwards \<open>PING\<close>.
\<close>

lemma readCommand_RELOAD_PING:
  "readCommand \<lparr>pending = ''RELOAD'' @ [CHR 0x0A] @ ''PING'' @ [CHR 0x0A], eof_err = EOF\<rparr>
     = ((''RELOAD'', CHR 0x0A, None), \<lparr>pending = ''PING'' @ [CHR 0x0A], eof_err = EOF\<rparr>)"
  "readCommand \<lparr>pending = ''PING'' @ [CHR 0x0A], eof_err = EOF\<rparr>
     = ((''PING'', CHR 0x0A, None), \<lparr>pending = [], eof_err = EOF\<rparr>)"
  "readCommand \<lparr>pending = [], eof_err = EOF\<rparr>
     = (('''', CHR 0x00, Some EOF), \<lparr>pending = [], eof_err = EOF\<rparr>)"
  by (simp_all add: readCommand_def readCommand_loop_eq isDelimiter_def nullDelimiter_def
      newlineDelimiter_def)

lemma allowed_examples:
  "\<not> isCommandAllowed ''RELOAD''" "isCommandAllowed ''PING''" "isCommandAllowed ''zINSTREAM''"
  by (simp_all add: isCommandAllowed_eq firstToken_def DecodeRune.simps IsSpace_def Let_def
      stripVariant_def)

lemma instream_examples:
  "\<not> isInstreamCommand ''PING''" "isInstreamCommand ''zINSTREAM''"
  by (simp_all add: isInstreamCommand_def HasPrefix_def HasSuffix_def)

lemma session_RELOAD_PING_undisturbed:
  "handleClientToBackend (NewClamdProxy mockConn mockConn)
     \<lparr>pending = ''RELOAD'' @ [CHR 0x0A] @ ''PING'' @ [CHR 0x0A], eof_err = EOF\<rparr>
   = (ReadCommandFailed EOF,
      NewClamdProxy (mockConn\<lparr>sent := ''ERROR: Command not allowed'' @ [CHR 0x0A]\<rparr>)
                    (mockConn\<lparr>sent := ''PING'' @ [CHR 0x0A], closed := True\<rparr>),
      \<lparr>pending = [], eof_err = EOF\<rparr>)"
proof -
  let ?p0 = "NewClamdProxy mockConn mockConn"
  let ?p1 = "NewClamdProxy (mockConn\<lparr>sent := ''ERROR: Command not allowed'' @ [CHR 0x0A]\<rparr>)
               mockConn"
  let ?p2 = "NewClamdProxy (mockConn\<lparr>sent := ''ERROR: Command not allowed'' @ [CHR 0x0A]\<rparr>)
               (mockConn\<lparr>sent := ''PING'' @ [CHR 0x0A]\<rparr>)"
  have h0: "healthy (clientBuf ?p0)"
    by (simp add: healthy_def NewClamdProxy_def mockConn_def)
  have e1: "?p0\<lparr>clientBuf := flushed ((clientBuf ?p0)\<lparr>buf := buf (clientBuf ?p0) @ response\<rparr>)\<rparr>
      = ?p1"
    by (simp add: NewClamdProxy_def mockConn_def flushed_def response_def)
  have s1: "handleClientToBackend ?p0
       \<lparr>pending = ''RELOAD'' @ [CHR 0x0A] @ ''PING'' @ [CHR 0x0A], eof_err = EOF\<rparr>
     = handleClientToBackend ?p1 \<lparr>pending = ''PING'' @ [CHR 0x0A], eof_err = EOF\<rparr>"
    using step_rejected [OF readCommand_RELOAD_PING(1) allowed_examples(1) h0] e1 by simp
  have h1: "healthy (backendBuf ?p1)"
    by (simp add: healthy_def NewClamdProxy_def mockConn_def)
  have e2: "?p1\<lparr>backendBuf :=
        flushed ((backendBuf ?p1)\<lparr>buf := buf (backendBuf ?p1) @ ''PING'' @ [CHR 0x0A]\<rparr>)\<rparr> = ?p2"
    by (simp add: NewClamdProxy_def mockConn_def flushed_def)
  have s2: "handleClientToBackend ?p1 \<lparr>pending = ''PING'' @ [CHR 0x0A], eof_err = EOF\<rparr>
     = handleClientToBackend ?p2 \<lparr>pending = [], eof_err = EOF\<rparr>"
    using step_allowed [OF readCommand_RELOAD_PING(2) allowed_examples(2) h1] e2
    by (simp add: instream_examples)
  have s3: "handleClientToBackend ?p2 \<lparr>pending = [], eof_err = EOF\<rparr>
     = (ReadCommandFailed EOF,
        NewClamdProxy (mockConn\<lparr>sent := ''ERROR: Command not allowed'' @ [CHR 0x0A]\<rparr>)
                      (mockConn\<lparr>sent := ''PING'' @ [CHR 0x0A], closed := True\<rparr>),
        \<lparr>pending = [], eof_err = EOF\<rparr>)"
    using step_read_error [OF readCommand_RELOAD_PING(3), of ?p2]
    by (simp add: NewClamdProxy_def mockConn_def conn_Close_def)
  from s1 s2 s3 show ?thesis
    by simp
qed

text \<open>
  The two steps of a flush, one after the other with nothing in between, are \<open>Flush\<close>;
  the rejection branch with the identity for \<open>other\<close> is the branch of
  \<open>handleClientToBackend\<close>; and \<^verbatim>\<open>Start\<close> alone hands the client the reply of the
  backend.
\<close>

lemma Flush_in_steps:
  "Flush b =
     (case Flush_write b of
        (None, b') \<Rightarrow> (err b, b)
      | (Some (n, e), b') \<Rightarrow> Flush_finish n e b')"
  by (auto simp: Flush_def Flush_write_def Flush_finish_def split: prod.splits option.splits)

lemma rejectCommand_alone:
  "readCommand r = ((cmd, delim, None), r1) \<Longrightarrow> \<not> isCommandAllowed cmd \<Longrightarrow>
     handleClientToBackend p r =
       (case rejectCommand (\<lambda>b. b) p of
          (Some x, p') \<Rightarrow> (x, p', r1)
        | (None, p') \<Rightarrow> handleClientToBackend p' r1)"
  by (simp add: handleClientToBackend.simps [of p r] rejectCommand_def
      split: prod.splits option.splits)

lemma Start_PONG:
  "Start (NewClamdProxy mockConn mockConn) [''PONG'' @ [CHR 0x0A]] EOF
     = (None, NewClamdProxy (mockConn\<lparr>sent := ''PONG'' @ [CHR 0x0A]\<rparr>) mockConn)"
  by (simp add: Start_def NewClamdProxy_def Write.simps Available_def bufSize_def Flush_def
      conn_Write_def mockConn_def)

text \<open>
  Claim C8. A command that is not allowed is meant to be answered with
  \<open>ERROR: Command not allowed\<close> and a newline, after which the loop goes on. The client
  pipelines \<open>PING\<close> and \<open>RELOAD\<close> on a connection that takes every write. \<open>PING\<close> has
  been forwarded; the backend answers \<open>PONG\<close> and closes, so the loop of \<^verbatim>\<open>Start\<close> ends
  with \<open>PONG\<close> in \<open>clientBuf\<close> and its final flush writes these five bytes to the client.
  Before that flush does its bookkeeping, the other goroutine reads \<open>RELOAD\<close>, which is not
  allowed, and appends the response to the same buffer. The bookkeeping then finds five
  bytes written of thirty-two and records \<^verbatim>\<open>io.ErrShortWrite\<close> in the writer. The flush
  of the rejection branch returns that error: the direction stops, and the client has
  been sent \<open>PONG\<close> and nothing of the rejection.
\<close>

theorem rejection_lost_when_flushes_race:
  "readCommand \<lparr>pending = ''RELOAD'' @ [CHR 0x0A], eof_err = EOF\<rparr>
     = ((''RELOAD'', CHR 0x0A, None), \<lparr>pending = [], eof_err = EOF\<rparr>) \<and>
   \<not> isCommandAllowed ''RELOAD'' \<and>
   Start_loop \<lparr>wr = mockConn, buf = [], err = None\<rparr> [''PONG'' @ [CHR 0x0A]] EOF
     = (None, \<lparr>wr = mockConn, buf = ''PONG'' @ [CHR 0x0A], err = None\<rparr>) \<and>
   Flush_write \<lparr>wr = mockConn, buf = ''PONG'' @ [CHR 0x0A], err = None\<rparr>
     = (Some (5, None),
        \<lparr>wr = mockConn\<lparr>sent := ''PONG'' @ [CHR 0x0A]\<rparr>, buf = ''PONG'' @ [CHR 0x0A], err = None\<rparr>) \<and>
   rejectCommand (\<lambda>b. snd (Flush_finish 5 None b))
     \<lparr>backendBuf = \<lparr>wr = mockConn\<lparr>sent := ''PING'' @ [CHR 0x0A]\<rparr>, buf = [], err = None\<rparr>,
      clientBuf = \<lparr>wr = mockConn\<lparr>sent := ''PONG'' @ [CHR 0x0A]\<rparr>,
                   buf = ''PONG'' @ [CHR 0x0A], err = None\<rparr>\<rparr>
     = (Some (ResponseFlushFailed ErrShortWrite),
        \<lparr>backendBuf = \<lparr>wr = mockConn\<lparr>sent := ''PING'' @ [CHR 0x0A]\<rparr>, buf = [], err = None\<rparr>,
         clientBuf = \<lparr>wr = mockConn\<lparr>sent := ''PONG'' @ [CHR 0x0A]\<rparr>,
                      buf = ''ERROR: Command not allowed'' @ [CHR 0x0A],
                      err = Some ErrShortWrite\<rparr>\<rparr>)"
proof -
  have r: "readCommand \<lparr>pending = ''RELOAD'' @ [CHR 0x0A], eof_err = EOF\<rparr>
     = ((''RELOAD'', CHR 0x0A, None), \<lparr>pending = [], eof_err = EOF\<rparr>)"
    by (simp add: readCommand_def readCommand_loop_eq isDelimiter_def nullDelimiter_def
        newlineDelimiter_def)
  have a: "\<not> isCommandAllowed ''RELOAD''"
    by (rule allowed_examples(1))
  have w: "Start_loop \<lparr>wr = mockConn, buf = [], err = None\<rparr> [''PONG'' @ [CHR 0x0A]] EOF
     = (None, \<lparr>wr = mockConn, buf = ''PONG'' @ [CHR 0x0A], err = None\<rparr>)"
    by (simp add: Write.simps Available_def bufSize_def)
  have f: "Flush_write \<lparr>wr = mockConn, buf = ''PONG'' @ [CHR 0x0A], err = None\<rparr>
     = (Some (5, None),
        \<lparr>wr = mockConn\<lparr>sent := ''PONG'' @ [CHR 0x0A]\<rparr>, buf = ''PONG'' @ [CHR 0x0A], err = None\<rparr>)"
    by (simp add: Flush_write_def conn_Write_def mockConn_def)
  have ws: "WriteString \<lparr>wr = mockConn\<lparr>sent := ''PONG'' @ [CHR 0x0A]\<rparr>,
                          buf = ''PONG'' @ [CHR 0x0A], err = None\<rparr> response
     = (None, \<lparr>wr = mockConn\<lparr>sent := ''PONG'' @ [CHR 0x0A]\<rparr>,
               buf = ''PONG'' @ [CHR 0x0A] @ response, err = None\<rparr>)"
    by (simp add: WriteString.simps Available_def bufSize_def response_def)
  have ff: "Flush_finish 5 None \<lparr>wr = mockConn\<lparr>sent := ''PONG'' @ [CHR 0x0A]\<rparr>,
                          buf = ''PONG'' @ [CHR 0x0A] @ response, err = None\<rparr>
     = (Some ErrShortWrite,
        \<lparr>wr = mockConn\<lparr>sent := ''PONG'' @ [CHR 0x0A]\<rparr>, buf = response,
         err = Some ErrShortWrite\<rparr>)"
    by (simp add: Flush_finish_def response_def)
  have fl: "Flush \<lparr>wr = mockConn\<lparr>sent := ''PONG'' @ [CHR 0x0A]\<rparr>, buf = response,
                   err = Some ErrShortWrite\<rparr>
     = (Some ErrShortWrite,
        \<lparr>wr = mockConn\<lparr>sent := ''PONG'' @ [CHR 0x0A]\<rparr>, buf = response,
         err = Some ErrShortWrite\<rparr>)"
    by (simp add: Flush_def)
  have j: "rejectCommand (\<lambda>b. snd (Flush_finish 5 None b))
     \<lparr>backendBuf = \<lparr>wr = mockConn\<lparr>sent := ''PING'' @ [CHR 0x0A]\<rparr>, buf = [], err = None\<rparr>,
      clientBuf = \<lparr>wr = mockConn\<lparr>sent := ''PONG'' @ [CHR 0x0A]\<rparr>,
                   buf = ''PONG'' @ [CHR 0x0A], err = None\<rparr>\<rparr>
     = (Some (ResponseFlushFailed ErrShortWrite),
        \<lparr>backendBuf = \<lparr>wr = mockConn\<lparr>sent := ''PING'' @ [CHR 0x0A]\<rparr>, buf = [], err = None\<rparr>,
         clientBuf = \<lparr>wr = mockConn\<lparr>sent := ''PONG'' @ [CHR 0x0A]\<rparr>,
                      buf = response, err = Some ErrShortWrite\<rparr>\<rparr>)"
    using ws ff fl by (simp add: rejectCommand_def)
  from r a w f j show ?thesis
    by (simp add: response_def)
qed

text \<open>
  Claim C9. When the command read is allowed and the backend writer takes every write,
  the loop sends the backend what its buffer held and then exactly the command name and
  its own delimiter byte, and the buffer is empty, before anything more is read from the
  client: the chunk relay (for a streaming command) or the next turn of the loop starts
  from that flushed writer and from the input right after the delimiter.
\<close>

theorem allowed_command_forwarded:
  "readCommand r = ((cmd, delim, None), r1) \<and> isCommandAllowed cmd \<and> healthy (backendBuf p) \<longrightarrow>
     handleClientToBackend p r =
       (if isInstreamCommand cmd
        then (case handleInstream
                     (p\<lparr>backendBuf :=
                          flushed ((backendBuf p)\<lparr>buf := buf (backendBuf p) @ cmd @ [delim]\<rparr>)\<rparr>) r1 of
                (Some e, p', r2) \<Rightarrow> (InstreamFailed e, p', r2)
              | (None, p', r2) \<Rightarrow> handleClientToBackend p' r2)
        else handleClientToBackend
               (p\<lparr>backendBuf :=
                    flushed ((backendBuf p)\<lparr>buf := buf (backendBuf p) @ cmd @ [delim]\<rparr>)\<rparr>) r1) \<and>
     sent (wr (flushed ((backendBuf p)\<lparr>buf := buf (backendBuf p) @ cmd @ [delim]\<rparr>)))
       = sent (wr (backendBuf p)) @ buf (backendBuf p) @ cmd @ [delim] \<and>
     buf (flushed ((backendBuf p)\<lparr>buf := buf (backendBuf p) @ cmd @ [delim]\<rparr>)) = []"
proof
  assume a: "readCommand r = ((cmd, delim, None), r1) \<and> isCommandAllowed cmd \<and>
    healthy (backendBuf p)"
  then have "handleClientToBackend p r =
       (if isInstreamCommand cmd
        then (case handleInstream
                     (p\<lparr>backendBuf :=
                          flushed ((backendBuf p)\<lparr>buf := buf (backendBuf p) @ cmd @ [delim]\<rparr>)\<rparr>) r1 of
                (Some e, p', r2) \<Rightarrow> (InstreamFailed e, p', r2)
              | (None, p', r2) \<Rightarrow> handleClientToBackend p' r2)
        else handleClientToBackend
               (p\<lparr>backendBuf :=
                    flushed ((backendBuf p)\<lparr>buf := buf (backendBuf p) @ cmd @ [delim]\<rparr>)\<rparr>) r1)"
    using step_allowed [of r cmd delim r1 p] by blast
  then show "handleClientToBackend p r =
       (if isInstreamCommand cmd
        then (case handleInstream
                     (p\<lparr>backendBuf :=
                          flushed ((backendBuf p)\<lparr>buf := buf (backendBuf p) @ cmd @ [delim]\<rparr>)\<rparr>) r1 of
                (Some e, p', r2) \<Rightarrow> (InstreamFailed e, p', r2)
              | (None, p', r2) \<Rightarrow> handleClientToBackend p' r2)
        else handleClientToBackend
               (p\<lparr>backendBuf :=
                    flushed ((backendBuf p)\<lparr>buf := buf (backendBuf p) @ cmd @ [delim]\<rparr>)\<rparr>) r1) \<and>
     sent (wr (flushed ((backendBuf p)\<lparr>buf := buf (backendBuf p) @ cmd @ [delim]\<rparr>)))
       = sent (wr (backendBuf p)) @ buf (backendBuf p) @ cmd @ [delim] \<and>
     buf (flushed ((backendBuf p)\<lparr>buf := buf (backendBuf p) @ cmd @ [delim]\<rparr>)) = []"
    by simp
qed

lemma readCommand_PING_VERSION:
  "readCommand \<lparr>pending = ''PING'' @ [CHR 0x0A] @ ''zVERSION'' @ [CHR 0x00], eof_err = EOF\<rparr>
     = ((''PING'', CHR 0x0A, None), \<lparr>pending = ''zVERSION'' @ [CHR 0x00], eof_err = EOF\<rparr>)"
  "readCommand \<lparr>pending = ''zVERSION'' @ [CHR 0x00], eof_err = EOF\<rparr>
     = ((''zVERSION'', CHR 0x00, None), \<lparr>pending = [], eof_err = EOF\<rparr>)"
  by (simp_all add: readCommand_def readCommand_loop_eq isDelimiter_def nullDelimiter_def
      newlineDelimiter_def)

lemma zVERSION_examples: "isCommandAllowed ''zVERSION''" "\<not> isInstreamCommand ''zVERSION''"
  by (simp_all add: isCommandAllowed_eq firstToken_def DecodeRune.simps IsSpace_def Let_def
      stripVariant_def isInstreamCommand_def HasPrefix_def HasSuffix_def)

theorem allowed_command_forwarded_witness:
  "handleClientToBackend (NewClamdProxy mockConn mockConn)
     \<lparr>pending = ''PING'' @ [CHR 0x0A] @ ''zVERSION'' @ [CHR 0x00], eof_err = EOF\<rparr>
   = (ReadCommandFailed EOF,
      NewClamdProxy mockConn
        (mockConn\<lparr>sent := ''PING'' @ [CHR 0x0A] @ ''zVERSION'' @ [CHR 0x00], closed := True\<rparr>),
      \<lparr>pending = [], eof_err = EOF\<rparr>) \<and>
   handleClientToBackend (NewClamdProxy mockConn mockConn)
     \<lparr>pending = ''PING'' @ [CHR 0x0A] @ ''zVERSION'' @ [CHR 0x00], eof_err = EOF\<rparr>
   = handleClientToBackend (NewClamdProxy mockConn (mockConn\<lparr>sent := ''PING'' @ [CHR 0x0A]\<rparr>))
       \<lparr>pending = ''zVERSION'' @ [CHR 0x00], eof_err = EOF\<rparr>"
proof -
  let ?p0 = "NewClamdProxy mockConn mockConn"
  let ?p1 = "NewClamdProxy mockConn (mockConn\<lparr>sent := ''PING'' @ [CHR 0x0A]\<rparr>)"
  let ?p2 = "NewClamdProxy mockConn
               (mockConn\<lparr>sent := ''PING'' @ [CHR 0x0A] @ ''zVERSION'' @ [CHR 0x00]\<rparr>)"
  have h: "readCommand \<lparr>pending = ''PING'' @ [CHR 0x0A] @ ''zVERSION'' @ [CHR 0x00], eof_err = EOF\<rparr>
       = ((''PING'', CHR 0x0A, None), \<lparr>pending = ''zVERSION'' @ [CHR 0x00], eof_err = EOF\<rparr>) \<and>
     isCommandAllowed ''PING'' \<and> healthy (backendBuf ?p0)"
    using readCommand_PING_VERSION(1) allowed_examples(2) by simp
  have e1: "?p0\<lparr>backendBuf :=
        flushed ((backendBuf ?p0)\<lparr>buf := buf (backendBuf ?p0) @ ''PING'' @ [CHR 0x0A]\<rparr>)\<rparr> = ?p1"
    by (simp add: NewClamdProxy_def mockConn_def flushed_def)
  have s1: "handleClientToBackend ?p0
       \<lparr>pending = ''PING'' @ [CHR 0x0A] @ ''zVERSION'' @ [CHR 0x00], eof_err = EOF\<rparr>
     = handleClientToBackend ?p1 \<lparr>pending = ''zVERSION'' @ [CHR 0x00], eof_err = EOF\<rparr>"
    using allowed_command_forwarded [THEN mp, OF h, THEN conjunct1] e1
    by (simp add: instream_examples)
  have h1: "healthy (backendBuf ?p1)"
    by (simp add: healthy_def NewClamdProxy_def mockConn_def)
  have e2: "?p1\<lparr>backendBuf :=
        flushed ((backendBuf ?p1)\<lparr>buf := buf (backendBuf ?p1) @ ''zVERSION'' @ [CHR 0x00]\<rparr>)\<rparr>
      = ?p2"
    by (simp add: NewClamdProxy_def mockConn_def flushed_def)
  have s2: "handleClientToBackend ?p1 \<lparr>pending = ''zVERSION'' @ [CHR 0x00], eof_err = EOF\<rparr>
     = handleClientToBackend ?p2 \<lparr>pending = [], eof_err = EOF\<rparr>"
    using step_allowed [OF readCommand_PING_VERSION(2) zVERSION_examples(1) h1] e2
    by (simp add: zVERSION_examples)
  have s3: "handleClientToBackend ?p2 \<lparr>pending = [], eof_err = EOF\<rparr>
     = (ReadCommandFailed EOF,
        NewClamdProxy mockConn
          (mockConn\<lparr>sent := ''PING'' @ [CHR 0x0A] @ ''zVERSION'' @ [CHR 0x00], closed := True\<rparr>),
        \<lparr>pending = [], eof_err = EOF\<rparr>)"
    using step_read_error [OF readCommand_RELOAD_PING(3), of ?p2]
    by (simp add: NewClamdProxy_def mockConn_def conn_Close_def)
  from s1 s2 s3 show ?thesis
    by simp
qed

lemma step_flush_failed:
  "readCommand r = ((cmd, delim, None), r1) \<Longrightarrow> isCommandAllowed cmd \<Longrightarrow>
   Write (backendBuf p) (cmd @ [delim]) = (None, b1) \<Longrightarrow> Flush b1 = (Some e, b2) \<Longrightarrow>
     handleClientToBackend p r = (FlushFailed e, p\<lparr>backendBuf := b2\<rparr>, r1)"
  by (simp add: handleClientToBackend.simps [of p r])

lemma read_error_closes_backend:
  "readCommand r = ((cmd, delim, Some e), r1) \<Longrightarrow>
     closed (wr (backendBuf (fst (snd (handleClientToBackend p r)))))"
  by (simp add: step_read_error closed_conn_Close)

lemma handleInstream_short_payload:
  "handleInstream \<lparr>backendBuf = \<lparr>wr = c, buf = [], err = None\<rparr>, clientBuf = k\<rparr>
     \<lparr>pending = [CHR 0x00, CHR 0x00, CHR 0x00, CHR 0x05, CHR ''a'', CHR ''b''], eof_err = EOF\<rparr>
   = (Some (Wrapf ''failed to read chunk data'' ErrUnexpectedEOF),
      \<lparr>backendBuf = \<lparr>wr = c, buf = [CHR 0x00, CHR 0x00, CHR 0x00, CHR 0x05], err = None\<rparr>,
       clientBuf = k\<rparr>,
      \<lparr>pending = [], eof_err = EOF\<rparr>)"
proof -
  have rf: "ReadFull \<lparr>pending = [CHR 0x00, CHR 0x00, CHR 0x00, CHR 0x05, CHR ''a'', CHR ''b''],
                      eof_err = EOF\<rparr> 4
      = (([CHR 0x00, CHR 0x00, CHR 0x00, CHR 0x05], None), \<lparr>pending = ''ab'', eof_err = EOF\<rparr>)"
    by (simp add: ReadFull_def)
  have w: "Write \<lparr>wr = c, buf = [], err = None\<rparr> [CHR 0x00, CHR 0x00, CHR 0x00, CHR 0x05]
      = (None, \<lparr>wr = c, buf = [CHR 0x00, CHR 0x00, CHR 0x00, CHR 0x05], err = None\<rparr>)"
    by (simp add: Write.simps Available_def bufSize_def)
  have cs: "chunkSize [CHR 0x00, CHR 0x00, CHR 0x00, CHR 0x05] = 5"
    by (simp add: chunkSize_eq)
  have rc: "relayChunk \<lparr>wr = c, buf = [CHR 0x00, CHR 0x00, CHR 0x00, CHR 0x05], err = None\<rparr>
              \<lparr>pending = ''ab'', eof_err = EOF\<rparr> 5
      = (Some (Wrapf ''failed to read chunk data'' ErrUnexpectedEOF),
         \<lparr>wr = c, buf = [CHR 0x00, CHR 0x00, CHR 0x00, CHR 0x05], err = None\<rparr>,
         \<lparr>pending = [], eof_err = EOF\<rparr>)"
    by (simp add: relayChunk_def ReadFull_def)
  show ?thesis
    by (simp add: handleInstream_def handleInstream_loop.simps rf w cs rc)
qed

text \<open>
  Claim C3. The direction is meant to close the backend connection whenever it stops.
  It does so when a command cannot be read. It does not when it stops for another reason:
  here the client sends \<open>zINSTREAM\<close>, announces a chunk of five bytes and disconnects
  after two, and in the second run the backend connection fails at the first flush;
  both times the loop stops and the backend connection is still open.
\<close>

theorem failure_exit_leaves_backend_open:
  "handleClientToBackend (NewClamdProxy mockConn mockConn)
     \<lparr>pending = ''zINSTREAM'' @ [CHR 0x00] @
                [CHR 0x00, CHR 0x00, CHR 0x00, CHR 0x05, CHR ''a'', CHR ''b''], eof_err = EOF\<rparr>
   = (InstreamFailed (Wrapf ''failed to read chunk data'' ErrUnexpectedEOF),
      \<lparr>backendBuf = \<lparr>wr = mockConn\<lparr>sent := ''zINSTREAM'' @ [CHR 0x00]\<rparr>,
                      buf = [CHR 0x00, CHR 0x00, CHR 0x00, CHR 0x05], err = None\<rparr>,
       clientBuf = \<lparr>wr = mockConn, buf = [], err = None\<rparr>\<rparr>,
      \<lparr>pending = [], eof_err = EOF\<rparr>) \<and>
   closed (mockConn\<lparr>sent := ''zINSTREAM'' @ [CHR 0x00]\<rparr>) = False \<and>
   handleClientToBackend (NewClamdProxy mockConn (mockConn\<lparr>room := Some 0\<rparr>))
     \<lparr>pending = ''PING'' @ [CHR 0x0A], eof_err = EOF\<rparr>
   = (FlushFailed (Errno EPIPE),
      \<lparr>backendBuf = \<lparr>wr = mockConn\<lparr>room := Some 0\<rparr>, buf = ''PING'' @ [CHR 0x0A],
                      err = Some (Errno EPIPE)\<rparr>,
       clientBuf = \<lparr>wr = mockConn, buf = [], err = None\<rparr>\<rparr>,
      \<lparr>pending = [], eof_err = EOF\<rparr>) \<and>
   closed (mockConn\<lparr>room := Some 0\<rparr>) = False"
proof -
  let ?p0 = "NewClamdProxy mockConn mockConn"
  let ?r1 = "\<lparr>pending = [CHR 0x00, CHR 0x00, CHR 0x00, CHR 0x05, CHR ''a'', CHR ''b''],
              eof_err = EOF\<rparr>"
  have rc: "readCommand \<lparr>pending = ''zINSTREAM'' @ [CHR 0x00] @
                [CHR 0x00, CHR 0x00, CHR 0x00, CHR 0x05, CHR ''a'', CHR ''b''], eof_err = EOF\<rparr>
      = ((''zINSTREAM'', CHR 0x00, None), ?r1)"
    by (simp add: readCommand_def readCommand_loop_eq isDelimiter_def nullDelimiter_def
        newlineDelimiter_def)
  have h: "healthy (backendBuf ?p0)" by simp
  have e: "?p0\<lparr>backendBuf :=
        flushed ((backendBuf ?p0)\<lparr>buf := buf (backendBuf ?p0) @ ''zINSTREAM'' @ [CHR 0x00]\<rparr>)\<rparr>
      = \<lparr>backendBuf = \<lparr>wr = mockConn\<lparr>sent := ''zINSTREAM'' @ [CHR 0x00]\<rparr>, buf = [], err = None\<rparr>,
         clientBuf = \<lparr>wr = mockConn, buf = [], err = None\<rparr>\<rparr>"
    by (simp add: NewClamdProxy_def mockConn_def flushed_def)
  have a: "handleClientToBackend ?p0
     \<lparr>pending = ''zINSTREAM'' @ [CHR 0x00] @
                [CHR 0x00, CHR 0x00, CHR 0x00, CHR 0x05, CHR ''a'', CHR ''b''], eof_err = EOF\<rparr>
   = (InstreamFailed (Wrapf ''failed to read chunk data'' ErrUnexpectedEOF),
      \<lparr>backendBuf = \<lparr>wr = mockConn\<lparr>sent := ''zINSTREAM'' @ [CHR 0x00]\<rparr>,
                      buf = [CHR 0x00, CHR 0x00, CHR 0x00, CHR 0x05], err = None\<rparr>,
       clientBuf = \<lparr>wr = mockConn, buf = [], err = None\<rparr>\<rparr>,
      \<lparr>pending = [], eof_err = EOF\<rparr>)"
    using step_allowed [OF rc allowed_examples(3) h] e
    by (simp add: instream_examples handleInstream_short_payload)
  let ?q0 = "NewClamdProxy mockConn (mockConn\<lparr>room := Some 0\<rparr>)"
  have w: "Write (backendBuf ?q0) (''PING'' @ [CHR 0x0A])
      = (None, \<lparr>wr = mockConn\<lparr>room := Some 0\<rparr>, buf = ''PING'' @ [CHR 0x0A], err = None\<rparr>)"
    by (simp add: NewClamdProxy_def Write.simps Available_def bufSize_def)
  have f: "Flush \<lparr>wr = mockConn\<lparr>room := Some 0\<rparr>, buf = ''PING'' @ [CHR 0x0A], err = None\<rparr>
      = (Some (Errno EPIPE),
         \<lparr>wr = mockConn\<lparr>room := Some 0\<rparr>, buf = ''PING'' @ [CHR 0x0A],
          err = Some (Errno EPIPE)\<rparr>)"
    by (simp add: Flush_def conn_Write_def mockConn_def)
  have b: "handleClientToBackend ?q0 \<lparr>pending = ''PING'' @ [CHR 0x0A], eof_err = EOF\<rparr>
   = (FlushFailed (Errno EPIPE),
      \<lparr>backendBuf = \<lparr>wr = mockConn\<lparr>room := Some 0\<rparr>, buf = ''PING'' @ [CHR 0x0A],
                      err = Some (Errno EPIPE)\<rparr>,
       clientBuf = \<lparr>wr = mockConn, buf = [], err = None\<rparr>\<rparr>,
      \<lparr>pending = [], eof_err = EOF\<rparr>)"
    using step_flush_failed [OF readCommand_RELOAD_PING(2) allowed_examples(2) w f]
    by (simp add: NewClamdProxy_def)
  have c: "closed (mockConn\<lparr>sent := ''zINSTREAM'' @ [CHR 0x00]\<rparr>) = False"
    "closed (mockConn\<lparr>room := Some 0\<rparr>) = False"
    by (simp_all add: mockConn_def)
  from a b c show ?thesis by simp
qed

end
